theory Spec2Isabelle
  imports Complex_Main
begin

section \<open>Tensor entries\<close>

text \<open>
  The tensors of the program hold floating-point numbers. An entry is modelled as a real
  number or one of the three special values of IEEE arithmetic. The special values follow
  the IEEE rules (\<open>0/0\<close>, \<open>inf - inf\<close> and \<open>0 * inf\<close> are NaN, NaN propagates, every
  comparison with NaN is false). The operations of this section are exact on finite
  values: they do not round, overflow or underflow, and zero has no sign. The solvers and
  the barycenter are read over them: what is proved of those relates the values
  computed, their shapes and the control flow.
\<close>

datatype fl = Fin real | PInf | NInf | NaN

fun isnan :: "fl \<Rightarrow> bool" where
  "isnan NaN = True"
| "isnan _ = False"

fun isinf :: "fl \<Rightarrow> bool" where
  "isinf PInf = True"
| "isinf NInf = True"
| "isinf _ = False"

fun fl_neg :: "fl \<Rightarrow> fl" where
  "fl_neg (Fin a) = Fin (- a)"
| "fl_neg PInf = NInf"
| "fl_neg NInf = PInf"
| "fl_neg NaN = NaN"

fun fl_abs :: "fl \<Rightarrow> fl" where
  "fl_abs (Fin a) = Fin \<bar>a\<bar>"
| "fl_abs PInf = PInf"
| "fl_abs NInf = PInf"
| "fl_abs NaN = NaN"

fun fl_add :: "fl \<Rightarrow> fl \<Rightarrow> fl" where
  "fl_add (Fin a) (Fin b) = Fin (a + b)"
| "fl_add (Fin a) PInf = PInf"
| "fl_add (Fin a) NInf = NInf"
| "fl_add PInf (Fin b) = PInf"
| "fl_add PInf PInf = PInf"
| "fl_add PInf NInf = NaN"
| "fl_add NInf (Fin b) = NInf"
| "fl_add NInf PInf = NaN"
| "fl_add NInf NInf = NInf"
| "fl_add NaN _ = NaN"
| "fl_add _ NaN = NaN"

definition fl_sub :: "fl \<Rightarrow> fl \<Rightarrow> fl" where
  "fl_sub a b = fl_add a (fl_neg b)"

text \<open>The infinity with the sign of a nonzero real factor.\<close>

definition inf_of_sign :: "real \<Rightarrow> fl" where
  "inf_of_sign a = (if a = 0 then NaN else if 0 < a then PInf else NInf)"

fun fl_mul :: "fl \<Rightarrow> fl \<Rightarrow> fl" where
  "fl_mul (Fin a) (Fin b) = Fin (a * b)"
| "fl_mul (Fin a) PInf = inf_of_sign a"
| "fl_mul (Fin a) NInf = inf_of_sign (- a)"
| "fl_mul PInf (Fin b) = inf_of_sign b"
| "fl_mul NInf (Fin b) = inf_of_sign (- b)"
| "fl_mul PInf PInf = PInf"
| "fl_mul PInf NInf = NInf"
| "fl_mul NInf PInf = NInf"
| "fl_mul NInf NInf = PInf"
| "fl_mul NaN _ = NaN"
| "fl_mul _ NaN = NaN"

text \<open>
  Division: a finite nonzero value over zero is an infinity, zero over zero and infinity
  over infinity are NaN, a finite value over an infinity is zero.
\<close>

fun fl_div :: "fl \<Rightarrow> fl \<Rightarrow> fl" where
  "fl_div (Fin a) (Fin b) = (if b = 0 then inf_of_sign a else Fin (a / b))"
| "fl_div (Fin a) PInf = Fin 0"
| "fl_div (Fin a) NInf = Fin 0"
| "fl_div PInf (Fin b) = (if 0 \<le> b then PInf else NInf)"
| "fl_div NInf (Fin b) = (if 0 \<le> b then NInf else PInf)"
| "fl_div PInf PInf = NaN"
| "fl_div PInf NInf = NaN"
| "fl_div NInf PInf = NaN"
| "fl_div NInf NInf = NaN"
| "fl_div NaN _ = NaN"
| "fl_div _ NaN = NaN"

fun fl_log :: "fl \<Rightarrow> fl" where
  "fl_log (Fin a) = (if a < 0 then NaN else if a = 0 then NInf else Fin (ln a))"
| "fl_log PInf = PInf"
| "fl_log NInf = NaN"
| "fl_log NaN = NaN"

fun fl_exp :: "fl \<Rightarrow> fl" where
  "fl_exp (Fin a) = Fin (exp a)"
| "fl_exp PInf = PInf"
| "fl_exp NInf = Fin 0"
| "fl_exp NaN = NaN"

text \<open>Comparison \<open>a < b\<close>: false as soon as one side is NaN.\<close>

fun fl_lt :: "fl \<Rightarrow> fl \<Rightarrow> bool" where
  "fl_lt (Fin a) (Fin b) = (a < b)"
| "fl_lt (Fin a) PInf = True"
| "fl_lt NInf (Fin b) = True"
| "fl_lt NInf PInf = True"
| "fl_lt _ _ = False"

text \<open>\<open>torch.nan_to_num(x, nan, posinf, neginf)\<close> on one entry.\<close>

fun nan_to_num :: "fl \<Rightarrow> fl \<Rightarrow> fl \<Rightarrow> fl \<Rightarrow> fl" where
  "nan_to_num nan posinf neginf (Fin a) = Fin a"
| "nan_to_num nan posinf neginf PInf = posinf"
| "nan_to_num nan posinf neginf NInf = neginf"
| "nan_to_num nan posinf neginf NaN = nan"

text \<open>
  \<open>x ** y\<close>, with the special cases of the C library's \<open>pow\<close>: anything to the power
  zero is one, one to any power is one, a negative base with a fractional exponent is NaN.
\<close>

definition is_int :: "real \<Rightarrow> bool" where
  "is_int b = (of_int \<lfloor>b\<rfloor> = b)"

fun fl_pow :: "fl \<Rightarrow> fl \<Rightarrow> fl" where
  "fl_pow x (Fin b) =
     (if b = 0 then Fin 1
      else case x of
        Fin a \<Rightarrow>
          (if a = 0 then (if b < 0 then PInf else Fin 0)
           else if 0 < a then Fin (a powr b)
           else if is_int b then Fin (if even \<lfloor>b\<rfloor> then \<bar>a\<bar> powr b else - (\<bar>a\<bar> powr b))
           else NaN)
      | PInf \<Rightarrow> (if b < 0 then Fin 0 else PInf)
      | NInf \<Rightarrow> (if b < 0 then Fin 0 else if is_int b \<and> odd \<lfloor>b\<rfloor> then NInf else PInf)
      | NaN \<Rightarrow> NaN)"
| "fl_pow x PInf =
     (case x of
        Fin a \<Rightarrow> (if \<bar>a\<bar> = 1 then Fin 1 else if \<bar>a\<bar> < 1 then Fin 0 else PInf)
      | PInf \<Rightarrow> PInf
      | NInf \<Rightarrow> PInf
      | NaN \<Rightarrow> NaN)"
| "fl_pow x NInf =
     (case x of
        Fin a \<Rightarrow> (if \<bar>a\<bar> = 1 then Fin 1 else if \<bar>a\<bar> < 1 then PInf else Fin 0)
      | PInf \<Rightarrow> Fin 0
      | NInf \<Rightarrow> Fin 0
      | NaN \<Rightarrow> NaN)"
| "fl_pow x NaN = (if x = Fin 1 then Fin 1 else NaN)"

text \<open>\<open>t.sum()\<close>: the sum of all entries, zero for an empty tensor.\<close>

definition fl_sum :: "fl list \<Rightarrow> fl" where
  "fl_sum xs = foldl fl_add (Fin 0) xs"

section \<open>Rounded arithmetic\<close>

text \<open>
  The operations above are exact. A machine operation on finite entries computes the
  exact result and rounds it to a number of its format, or to an infinity where the
  result is too large. The divergences of the program are read over such rounded
  operations, since what the specification says of them (a sign, an exact zero, a finite
  result) depends on the rounding.
\<close>

text \<open>Whether an entry is finite.\<close>

fun is_fin :: "fl \<Rightarrow> bool" where
  "is_fin (Fin x) = True"
| "is_fin _ = False"

text \<open>
  Single precision, the default of \<open>torch\<close>: a finite number is an integer of at most 24
  bits times a power of two, the least unit being \<open>2 powr -149\<close>. A real number is
  rounded to the nearest such number, a tie to the one with an even integer; a result
  that reaches \<open>2 ^ 128\<close> after rounding is the infinity of its sign. \<open>ulp32 x\<close> is the
  unit in the binade of \<open>x\<close>.
\<close>

definition round_even :: "real \<Rightarrow> int" where
  "round_even r =
     (let f = \<lfloor>r\<rfloor> in
      if r - of_int f < 1 / 2 then f
      else if 1 / 2 < r - of_int f then f + 1
      else if even f then f else f + 1)"

definition ulp32 :: "real \<Rightarrow> real" where
  "ulp32 x = 2 powr of_int (max \<lfloor>log 2 \<bar>x\<bar>\<rfloor> (- 126) - 23)"

definition round32 :: "real \<Rightarrow> fl" where
  "round32 x =
     (if x = 0 then Fin 0
      else let y = of_int (round_even (\<bar>x\<bar> / ulp32 x)) * ulp32 x
           in if 2 ^ 128 \<le> y then inf_of_sign x else Fin (sgn x * y))"

text \<open>
  A number of the format: a significand of at most 24 bits (at least 24 bits unless the
  exponent is the least one) times the unit of its binade.
\<close>

definition significand :: "int \<Rightarrow> int \<Rightarrow> bool" where
  "significand e n = (- 126 \<le> e \<and> 0 \<le> n \<and> n \<le> 2 ^ 24 \<and> (- 126 < e \<longrightarrow> 2 ^ 23 \<le> n))"

text \<open>
  An arithmetic: how the exact result of an operation is rounded, and the logarithm of
  the library on a positive finite entry. The four operations follow the IEEE rules on
  the special values (these are the exact operations' rules) and round a finite result;
  the logarithm is \<open>-inf\<close> at zero and NaN below.
\<close>

record arith =
  rnd :: "real \<Rightarrow> fl"
  lg :: "real \<Rightarrow> fl"

definition round_to :: "arith \<Rightarrow> fl \<Rightarrow> fl" where
  "round_to A x = (case x of Fin a \<Rightarrow> rnd A a | _ \<Rightarrow> x)"

definition r_add :: "arith \<Rightarrow> fl \<Rightarrow> fl \<Rightarrow> fl" where
  "r_add A a b = round_to A (fl_add a b)"

definition r_sub :: "arith \<Rightarrow> fl \<Rightarrow> fl \<Rightarrow> fl" where
  "r_sub A a b = round_to A (fl_sub a b)"

definition r_mul :: "arith \<Rightarrow> fl \<Rightarrow> fl \<Rightarrow> fl" where
  "r_mul A a b = round_to A (fl_mul a b)"

definition r_div :: "arith \<Rightarrow> fl \<Rightarrow> fl \<Rightarrow> fl" where
  "r_div A a b = round_to A (fl_div a b)"

fun r_log :: "arith \<Rightarrow> fl \<Rightarrow> fl" where
  "r_log A (Fin a) = (if a < 0 then NaN else if a = 0 then NInf else lg A a)"
| "r_log A PInf = PInf"
| "r_log A NInf = NaN"
| "r_log A NaN = NaN"

text \<open>
  \<open>t.sum()\<close>: zero for an empty tensor. \<open>torch\<close> adds the entries in an order of its
  choosing; here they are added from left to right, every partial sum rounded.
\<close>

definition r_sum :: "arith \<Rightarrow> fl list \<Rightarrow> fl" where
  "r_sum A xs = foldl (r_add A) (Fin 0) xs"

text \<open>
  What is assumed of an arithmetic, and holds of the IEEE formats under rounding to
  nearest: zero and one are numbers of the format, rounding never gives NaN, it commutes
  with the change of sign, and it leaves a number of the format as it is; the logarithm
  of one is zero.
\<close>

definition ieee :: "arith \<Rightarrow> bool" where
  "ieee A =
     (rnd A 0 = Fin 0 \<and> rnd A 1 = Fin 1 \<and> lg A 1 = Fin 0 \<and>
      (\<forall>x. rnd A x \<noteq> NaN) \<and>
      (\<forall>x. rnd A (- x) = fl_neg (rnd A x)) \<and>
      (\<forall>x y. rnd A x = Fin y \<longrightarrow> rnd A y = Fin y))"

text \<open>
  Single precision, with the logarithm rounded correctly. (A library's logarithm may
  differ from it in the last bit.)
\<close>

definition binary32 :: arith where
  "binary32 = \<lparr>rnd = round32, lg = (\<lambda>x. round32 (ln x))\<rparr>"

section \<open>Divergences (solvers/utils.py)\<close>

text \<open>
  \<open>compute_approx_kl(p, q)\<close>: the entries of \<open>p * (p / q).log()\<close>, each passed through
  \<open>nan_to_num(nan=0.0, posinf=0.0, neginf=0.0)\<close>, summed. \<open>compute_kl(p, q)\<close> is
  \<open>compute_approx_kl(p, q) - p.sum() + q.sum()\<close>. The two tensors are given by their
  entries in order; they have the same shape.
\<close>

definition compute_approx_kl :: "arith \<Rightarrow> fl list \<Rightarrow> fl list \<Rightarrow> fl" where
  "compute_approx_kl A p q =
     r_sum A (map (nan_to_num (Fin 0) (Fin 0) (Fin 0))
                (map2 (\<lambda>a b. r_mul A a (r_log A (r_div A a b))) p q))"

definition compute_kl :: "arith \<Rightarrow> fl list \<Rightarrow> fl list \<Rightarrow> fl" where
  "compute_kl A p q = r_add A (r_sub A (compute_approx_kl A p q) (r_sum A p)) (r_sum A q)"

text \<open>
  The divergence as the specification words it: the sum of \<open>p * log (p / q)\<close> minus the
  mass of \<open>p\<close> plus the mass of \<open>q\<close>, a term being zero where \<open>p\<close> is zero (the convention
  \<open>0 log 0 = 0\<close>, which covers the ratio zero over zero).
\<close>

definition spec_term :: "arith \<Rightarrow> fl \<Rightarrow> fl \<Rightarrow> fl" where
  "spec_term A a b = (if a = Fin 0 then Fin 0 else r_mul A a (r_log A (r_div A a b)))"

definition generalizedKL :: "arith \<Rightarrow> fl list \<Rightarrow> fl list \<Rightarrow> fl" where
  "generalizedKL A p q =
     r_add A (r_sub A (r_sum A (map2 (spec_term A) p q)) (r_sum A p)) (r_sum A q)"

text \<open>
  The term as the program has it: zero where \<open>p\<close> is zero, where \<open>q\<close> is zero, and
  wherever \<open>p * log (p / q)\<close> is not finite.
\<close>

definition kl_term :: "arith \<Rightarrow> fl \<Rightarrow> fl \<Rightarrow> fl" where
  "kl_term A a b =
     (if a = Fin 0 \<or> b = Fin 0 then Fin 0
      else let x = r_mul A a (r_log A (r_div A a b)) in if is_fin x then x else Fin 0)"

section \<open>Dense and sparse tensors\<close>

text \<open>
  A vector is the list of its entries, a dense matrix the list of its rows. A sparse
  matrix is kept as the program keeps it: a shape and the stored entries, each a row
  index, a column index and a value; what is not stored is zero and takes no part in a
  sum or a product.
\<close>

type_synonym vec = "fl list"
type_synonym matrix = "fl list list"

record sparse =
  nrows :: nat
  ncols :: nat
  entries :: "(nat \<times> nat \<times> fl) list"

text \<open>\<open>pi.values()\<close>\<close>

definition sp_values :: "sparse \<Rightarrow> fl list" where
  "sp_values a = map (\<lambda>(i, j, v). v) (entries a)"

text \<open>\<open>pi.T\<close>\<close>

definition sp_T :: "sparse \<Rightarrow> sparse" where
  "sp_T a = \<lparr>nrows = ncols a, ncols = nrows a, entries = map (\<lambda>(i, j, v). (j, i, v)) (entries a)\<rparr>"

text \<open>\<open>w * a\<close> for a number \<open>w\<close>\<close>

definition sp_scale :: "fl \<Rightarrow> sparse \<Rightarrow> sparse" where
  "sp_scale w a = a\<lparr>entries := map (\<lambda>(i, j, v). (i, j, fl_mul w v)) (entries a)\<rparr>"

text \<open>\<open>torch.sparse.sum(a, dim=0).to_dense()\<close>: one sum per column.\<close>

definition sp_sum_dim0 :: "sparse \<Rightarrow> vec" where
  "sp_sum_dim0 a = map (\<lambda>c. fl_sum [v. (i, j, v) \<leftarrow> entries a, j = c]) [0..<ncols a]"

text \<open>The number of columns of a dense matrix with at least one row.\<close>

definition width :: "matrix \<Rightarrow> nat" where
  "width m = (case m of [] \<Rightarrow> 0 | r # _ \<Rightarrow> length r)"

text \<open>\<open>m.T\<close> for a dense matrix\<close>

definition m_T :: "matrix \<Rightarrow> matrix" where
  "m_T m = map (\<lambda>j. map (\<lambda>r. r ! j) m) [0..<width m]"

text \<open>\<open>a @ m\<close>: a sparse matrix times a dense one, a dense result.\<close>

definition sp_mm :: "sparse \<Rightarrow> matrix \<Rightarrow> matrix" where
  "sp_mm a m =
     map (\<lambda>r. map (\<lambda>k. fl_sum [fl_mul v (m ! j ! k). (i, j, v) \<leftarrow> entries a, i = r])
                 [0..<width m])
       [0..<nrows a]"

text \<open>\<open>m / s\<close> for a matrix \<open>m\<close> and a column \<open>s\<close> (one divisor per row).\<close>

definition div_rows :: "matrix \<Rightarrow> vec \<Rightarrow> matrix" where
  "div_rows m s = map2 (\<lambda>r d. map (\<lambda>x. fl_div x d) r) m s"

text \<open>\<open>m += a\<close>\<close>

definition m_add :: "matrix \<Rightarrow> matrix \<Rightarrow> matrix" where
  "m_add m a = map2 (map2 fl_add) m a"

text \<open>
  \<open>torch.min\<close> and \<open>torch.max\<close> over a nonempty list of entries: a NaN among them is the
  result.
\<close>

definition min2 :: "fl \<Rightarrow> fl \<Rightarrow> fl" where
  "min2 a b = (if isnan a then a else if isnan b then b else if fl_lt b a then b else a)"

definition max2 :: "fl \<Rightarrow> fl \<Rightarrow> fl" where
  "max2 a b = (if isnan a then a else if isnan b then b else if fl_lt a b then b else a)"

fun torch_min :: "fl list \<Rightarrow> fl" where
  "torch_min [] = NaN"
| "torch_min (x # xs) = foldl min2 x xs"

fun torch_max :: "fl list \<Rightarrow> fl" where
  "torch_max [] = NaN"
| "torch_max (x # xs) = foldl max2 x xs"

text \<open>Column \<open>k\<close> of a dense matrix.\<close>

definition column :: "matrix \<Rightarrow> nat \<Rightarrow> fl list" where
  "column m k = map (\<lambda>r. r ! k) m"

text \<open>
  Elementwise operations with the broadcasting the solvers use: \<open>a[:, None] op M\<close> pairs
  entry \<open>i\<close> of the vector with row \<open>i\<close> of the matrix, \<open>b[None, :] op M\<close> and
  \<open>M op b[None, :]\<close> pair entry \<open>j\<close> with column \<open>j\<close>, \<open>a[:, None] op b[None, :]\<close> is the
  outer combination.
\<close>

definition m_map :: "(fl \<Rightarrow> fl) \<Rightarrow> matrix \<Rightarrow> matrix" where
  "m_map f m = map (map f) m"

definition m_map2 :: "(fl \<Rightarrow> fl \<Rightarrow> fl) \<Rightarrow> matrix \<Rightarrow> matrix \<Rightarrow> matrix" where
  "m_map2 f m m' = map2 (map2 f) m m'"

definition col_bcast :: "(fl \<Rightarrow> fl \<Rightarrow> fl) \<Rightarrow> vec \<Rightarrow> matrix \<Rightarrow> matrix" where
  "col_bcast f a m = map2 (\<lambda>x r. map (f x) r) a m"

definition row_bcast :: "(fl \<Rightarrow> fl \<Rightarrow> fl) \<Rightarrow> vec \<Rightarrow> matrix \<Rightarrow> matrix" where
  "row_bcast f b m = map (\<lambda>r. map2 f b r) m"

definition bcast_row :: "(fl \<Rightarrow> fl \<Rightarrow> fl) \<Rightarrow> matrix \<Rightarrow> vec \<Rightarrow> matrix" where
  "bcast_row f m b = map (\<lambda>r. map2 f r b) m"

definition outer :: "(fl \<Rightarrow> fl \<Rightarrow> fl) \<Rightarrow> vec \<Rightarrow> vec \<Rightarrow> matrix" where
  "outer f a b = map (\<lambda>x. map (f x) b) a"

text \<open>\<open>m.sum(1)\<close> and \<open>m.sum(0)\<close>\<close>

definition sum_dim1 :: "matrix \<Rightarrow> vec" where
  "sum_dim1 m = map fl_sum m"

definition sum_dim0 :: "matrix \<Rightarrow> vec" where
  "sum_dim0 m = map (\<lambda>j. fl_sum (column m j)) [0..<width m]"

text \<open>\<open>m @ x\<close> for a dense matrix and a vector\<close>

definition mv :: "matrix \<Rightarrow> vec \<Rightarrow> vec" where
  "mv m x = map (\<lambda>r. fl_sum (map2 fl_mul r x)) m"

text \<open>
  \<open>logsumexp\<close> of a list of entries, and along the two dimensions of a matrix. The
  library shifts by the maximum before it exponentiates; in exact arithmetic that is the
  logarithm of the sum of the exponentials.
\<close>

definition logsumexp :: "fl list \<Rightarrow> fl" where
  "logsumexp xs = fl_log (fl_sum (map fl_exp xs))"

definition logsumexp_dim0 :: "matrix \<Rightarrow> vec" where
  "logsumexp_dim0 m = map (\<lambda>j. logsumexp (column m j)) [0..<width m]"

definition logsumexp_dim1 :: "matrix \<Rightarrow> vec" where
  "logsumexp_dim1 m = map logsumexp m"

text \<open>Python's \<open>max(a, b)\<close> on two numbers: \<open>b\<close> if \<open>b > a\<close>, else \<open>a\<close>.\<close>

definition py_max :: "fl \<Rightarrow> fl \<Rightarrow> fl" where
  "py_max a b = (if fl_lt a b then b else a)"

text \<open>\<open>(a - b).abs().max()\<close> for two vectors; the reduction of an empty tensor fails.\<close>

definition max_abs_diff :: "vec \<Rightarrow> vec \<Rightarrow> fl" where
  "max_abs_diff a b = torch_max (map fl_abs (map2 fl_sub a b))"

datatype error =
  ValueError string
  | IndexError
  | UnboundLocalError
  | RuntimeError
  | ZeroDivisionError

section \<open>The solvers (solvers/utils.py)\<close>

text \<open>
  \<open>for idx in range(niters): ...; if ...: break\<close>. The body of a loop gives the new state
  and whether the loop breaks after it, or the error it raises.
\<close>

fun loop_break :: "(nat \<Rightarrow> 's \<Rightarrow> error + bool \<times> 's) \<Rightarrow> nat list \<Rightarrow> 's \<Rightarrow> error + 's" where
  "loop_break body [] s = Inr s"
| "loop_break body (idx # rest) s =
     (case body idx s of
        Inl e \<Rightarrow> Inl e
      | Inr (stop, s') \<Rightarrow> if stop then Inr s' else loop_break body rest s')"

text \<open>
  The parameters of a solver call: \<open>uot_params = (rho_x, rho_y, eps)\<close> are numbers,
  \<open>train_params = (niters, tol, eval_freq)\<close> two Python integers and a number.
\<close>

record uot_params =
  rho_x :: fl
  rho_y :: fl
  eps :: fl

record train_params =
  niters :: int
  tol :: fl
  eval_freq :: int

subsection \<open>\<open>solver_scaling\<close>\<close>

definition tau :: "fl \<Rightarrow> fl \<Rightarrow> fl" where
  "tau rho e = (if isinf rho then Fin 1 else fl_div rho (fl_add rho e))"

text \<open>The two assignments of the loop body, on the duals \<open>(vx, vy)\<close>.\<close>

definition scaling_vy :: "matrix \<Rightarrow> uot_params \<Rightarrow> vec \<Rightarrow> vec \<Rightarrow> vec \<Rightarrow> vec" where
  "scaling_vy cost p log_px vx vy =
     (if rho_y p = Fin 0 then map (\<lambda>_. Fin 0) vy
      else map (fl_mul (fl_neg (tau (rho_y p) (eps p))))
             (logsumexp_dim0
                (col_bcast fl_sub (map2 fl_add vx log_px)
                   (m_map (\<lambda>c. fl_div c (eps p)) cost))))"

definition scaling_vx :: "matrix \<Rightarrow> uot_params \<Rightarrow> vec \<Rightarrow> vec \<Rightarrow> vec \<Rightarrow> vec" where
  "scaling_vx cost p log_py vx vy =
     (if rho_x p = Fin 0 then map (\<lambda>_. Fin 0) vx
      else map (fl_mul (fl_neg (tau (rho_x p) (eps p))))
             (logsumexp_dim1
                (row_bcast fl_sub (map2 fl_add vy log_py)
                   (m_map (\<lambda>c. fl_div c (eps p)) cost))))"

definition scaling_step :: "matrix \<Rightarrow> uot_params \<Rightarrow> vec \<Rightarrow> vec \<Rightarrow> vec \<times> vec \<Rightarrow> vec \<times> vec" where
  "scaling_step cost p log_px log_py duals =
     (case duals of (vx, vy) \<Rightarrow>
        let vy' = scaling_vy cost p log_px vx vy;
            vx' = scaling_vx cost p log_py vx vy'
        in (vx', vy'))"

text \<open>
  The test at the end of the body: \<open>idx % eval_freq\<close> is evaluated in every iteration
  (it raises for \<open>eval_freq = 0\<close>), the two maxima only where it is zero.
\<close>

definition scaling_body ::
  "matrix \<Rightarrow> uot_params \<Rightarrow> train_params \<Rightarrow> vec \<Rightarrow> vec \<Rightarrow> nat \<Rightarrow> vec \<times> vec \<Rightarrow>
   error + bool \<times> (vec \<times> vec)" where
  "scaling_body cost p t log_px log_py idx duals =
     (case duals of (vx_prev, vy_prev) \<Rightarrow>
        (case scaling_step cost p log_px log_py duals of (vx, vy) \<Rightarrow>
           if eval_freq t = 0 then Inl ZeroDivisionError
           else if int idx mod eval_freq t = 0 then
             (if map2 fl_sub vx vx_prev = [] \<or> map2 fl_sub vy vy_prev = [] then Inl RuntimeError
              else Inr (fl_lt (py_max (max_abs_diff vx vx_prev) (max_abs_diff vy vy_prev)) (tol t),
                        (vx, vy)))
           else Inr (False, (vx, vy))))"

definition scaling_pi :: "matrix \<Rightarrow> uot_params \<Rightarrow> matrix \<Rightarrow> vec \<times> vec \<Rightarrow> matrix" where
  "scaling_pi cost p pxy duals =
     (case duals of (vx, vy) \<Rightarrow>
        m_map2 fl_mul pxy
          (m_map fl_exp
             (m_map2 fl_sub (outer fl_add vx vy) (m_map (\<lambda>c. fl_div c (eps p)) cost))))"

definition solver_scaling ::
  "matrix \<Rightarrow> vec \<times> vec \<Rightarrow> uot_params \<Rightarrow> vec \<times> vec \<times> matrix \<Rightarrow> train_params \<Rightarrow>
   error + (vec \<times> vec) \<times> matrix" where
  "solver_scaling cost init_duals p tuple_pxy t =
     (case tuple_pxy of (log_px, log_py, pxy) \<Rightarrow>
        (case loop_break (scaling_body cost p t log_px log_py) [0..<nat (niters t)] init_duals of
           Inl e \<Rightarrow> Inl e
         | Inr duals \<Rightarrow> Inr (duals, scaling_pi cost p pxy duals)))"

subsection \<open>\<open>solver_mm\<close>\<close>

text \<open>The exponents and the kernel, computed once.\<close>

definition sum_param :: "uot_params \<Rightarrow> fl" where
  "sum_param p = fl_add (fl_add (rho_x p) (rho_y p)) (eps p)"

definition mm_K :: "matrix \<Rightarrow> uot_params \<Rightarrow> vec \<Rightarrow> vec \<Rightarrow> matrix" where
  "mm_K cost p px py =
     (let tau_x = fl_div (rho_x p) (sum_param p);
          tau_y = fl_div (rho_y p) (sum_param p);
          r = fl_div (eps p) (sum_param p)
      in m_map2 fl_mul
           (outer fl_mul (map (\<lambda>x. fl_pow x (fl_add tau_x r)) px)
              (map (\<lambda>y. fl_pow y (fl_add tau_y r)) py))
           (m_map fl_exp (m_map (\<lambda>c. fl_div (fl_neg c) (sum_param p)) cost)))"

text \<open>The state of the loop is \<open>(pi1, pi2, pi)\<close>; the coupling \<open>pi\<close> is written \<open>cpl\<close>.\<close>

definition mm_step :: "uot_params \<Rightarrow> matrix \<Rightarrow> vec \<times> vec \<times> matrix \<Rightarrow> vec \<times> vec \<times> matrix" where
  "mm_step p K s =
     (case s of (pi1, pi2, cpl) \<Rightarrow>
        let tau_x = fl_div (rho_x p) (sum_param p);
            tau_y = fl_div (rho_y p) (sum_param p);
            cpl' = m_map2 fl_mul
                    (m_map2 fl_div (m_map (\<lambda>x. fl_pow x (fl_add tau_x tau_y)) cpl)
                       (outer fl_mul (map (\<lambda>x. fl_pow x tau_x) pi1)
                          (map (\<lambda>y. fl_pow y tau_y) pi2)))
                    K
        in (sum_dim1 cpl', sum_dim0 cpl', cpl'))"

definition mm_body ::
  "uot_params \<Rightarrow> train_params \<Rightarrow> matrix \<Rightarrow> nat \<Rightarrow> vec \<times> vec \<times> matrix \<Rightarrow>
   error + bool \<times> (vec \<times> vec \<times> matrix)" where
  "mm_body p t K idx s =
     (case s of (pi1_old, pi2_old, pi_old) \<Rightarrow>
        (case mm_step p K s of (pi1, pi2, cpl) \<Rightarrow>
           if eval_freq t = 0 then Inl ZeroDivisionError
           else if int idx mod eval_freq t = 0 then
             (if map2 fl_sub pi1 pi1_old = [] \<or> map2 fl_sub pi2 pi2_old = [] then Inl RuntimeError
              else Inr (fl_lt (py_max (max_abs_diff pi1 pi1_old) (max_abs_diff pi2 pi2_old)) (tol t),
                        (pi1, pi2, cpl)))
           else Inr (False, (pi1, pi2, cpl))))"

definition solver_mm ::
  "matrix \<Rightarrow> matrix \<Rightarrow> uot_params \<Rightarrow> vec \<times> vec \<Rightarrow> train_params \<Rightarrow> error + matrix" where
  "solver_mm cost init_pi p tuple_pxy t =
     (case tuple_pxy of (px, py) \<Rightarrow>
        (case loop_break (mm_body p t (mm_K cost p px py)) [0..<nat (niters t)]
                (sum_dim1 init_pi, sum_dim0 init_pi, init_pi) of
           Inl e \<Rightarrow> Inl e
         | Inr (pi1, pi2, cpl) \<Rightarrow> Inr cpl))"

subsection \<open>\<open>solver_dc\<close>\<close>

definition tau_dc :: "fl \<Rightarrow> fl \<Rightarrow> fl" where
  "tau_dc rho sum_eps = (if rho = PInf then Fin 1 else fl_div rho (fl_add rho sum_eps))"

text \<open>
  The part of the body under \<open># IPOT\<close>, on \<open>(u, v, pi)\<close>; \<open>rho1\<close>, \<open>rho2\<close> are the
  fields \<open>rho_x\<close>, \<open>rho_y\<close> of the parameters.
\<close>

definition dc_ipot ::
  "matrix \<Rightarrow> uot_params \<Rightarrow> fl \<Rightarrow> vec \<Rightarrow> vec \<Rightarrow> vec \<times> vec \<times> matrix \<Rightarrow> vec \<times> vec \<times> matrix" where
  "dc_ipot K p eps_base px py s =
     (case s of (u, v, cpl) \<Rightarrow>
        let sum_eps = fl_add eps_base (eps p);
            G = (if fl_div eps_base sum_eps = Fin 1 then m_map2 fl_mul K cpl
                 else m_map2 fl_mul K (m_map (\<lambda>x. fl_pow x (fl_div eps_base sum_eps)) cpl));
            v' = (if rho_y p \<noteq> Fin 0
                  then map (\<lambda>x. fl_pow x (fl_neg (tau_dc (rho_y p) sum_eps))) (mv (m_T G) (map2 fl_mul u px))
                  else map (\<lambda>_. Fin 1) v);
            u' = (if rho_x p \<noteq> Fin 0
                  then map (\<lambda>x. fl_pow x (fl_neg (tau_dc (rho_x p) sum_eps))) (mv G (map2 fl_mul v' py))
                  else map (\<lambda>_. Fin 1) u)
        in (u', v', bcast_row fl_mul (col_bcast fl_mul u' G) v'))"

text \<open>
  The whole body, on \<open>(u, v, pi, m1)\<close>: at a checkpoint the row masses are recomputed and
  tested.
\<close>

definition dc_body ::
  "matrix \<Rightarrow> uot_params \<Rightarrow> train_params \<Rightarrow> fl \<Rightarrow> vec \<Rightarrow> vec \<Rightarrow> nat \<Rightarrow>
   vec \<times> vec \<times> matrix \<times> vec \<Rightarrow> error + bool \<times> (vec \<times> vec \<times> matrix \<times> vec)" where
  "dc_body K p t eps_base px py idx s =
     (case s of (u0, v0, pi0, m1_prev) \<Rightarrow>
        (case dc_ipot K p eps_base px py (u0, v0, pi0) of (u, v, cpl) \<Rightarrow>
           if eval_freq t = 0 then Inl ZeroDivisionError
           else if int idx mod eval_freq t = 0 then
             (let m1 = sum_dim1 cpl
              in if list_ex isnan m1 \<or> list_ex isinf m1
                 then Inl (ValueError ''There is NaN in coupling. Please increase eps_base.'')
                 else if map2 fl_sub m1 m1_prev = [] then Inl RuntimeError
                 else Inr (fl_lt (max_abs_diff m1 m1_prev) (tol t), (u, v, cpl, m1)))
           else Inr (False, (u, v, cpl, m1_prev))))"

definition solver_dc ::
  "matrix \<Rightarrow> matrix \<Rightarrow> vec \<times> vec \<Rightarrow> uot_params \<Rightarrow> vec \<times> vec \<times> matrix \<Rightarrow> train_params \<Rightarrow> fl \<Rightarrow>
   error + (vec \<times> vec) \<times> matrix" where
  "solver_dc cost init_pi init_duals p tuple_pxy t eps_base =
     (case tuple_pxy of (px, py, pxy) \<Rightarrow>
        (case init_duals of (u, v) \<Rightarrow>
           let sum_eps = fl_add eps_base (eps p);
               K = m_map fl_exp (m_map (\<lambda>c. fl_div (fl_neg c) sum_eps) cost)
           in (case loop_break (dc_body K p t eps_base px py) [0..<nat (niters t)]
                       (u, v, init_pi, sum_dim1 init_pi) of
                 Inl e \<Rightarrow> Inl e
               | Inr (u', v', cpl, m1) \<Rightarrow> Inr ((u', v'), m_map2 fl_mul cpl pxy))))"

section \<open>The barycenter (mappings/sparse\_barycenter.py)\<close>

text \<open>
  \<open>update_barycenter_features\<close>, the body of its loop for one individual: the plan \<open>pi\<close>
  has one row per point of the individual and one column per barycenter point, the
  features \<open>f\<close> one row per feature and one column per point.
  \<open>acc = weight * pi.T @ f.T / pi_sum\<close> is read from left to right. \<open>_make_tensor\<close>
  only places the features on the device; an individual always has a feature matrix,
  so the test \<open>features is not None\<close> holds.
\<close>

definition floor_eps :: fl where
  "floor_eps = Fin (1 / 10 ^ 16)"

definition pi_sum :: "sparse \<Rightarrow> vec" where
  "pi_sum a = map (\<lambda>x. fl_add x floor_eps) (sp_sum_dim0 a)"

definition acc :: "fl \<Rightarrow> sparse \<Rightarrow> matrix \<Rightarrow> matrix" where
  "acc weight a f = div_rows (sp_mm (sp_scale weight (sp_T a)) (m_T f)) (pi_sum a)"

text \<open>
  The loop over \<open>zip(plans, features_list)\<close>. The accumulator is unbound before the first
  individual (\<open>i == 0\<close>) and added to afterwards.
\<close>

fun accumulate :: "fl \<Rightarrow> (sparse \<times> matrix) list \<Rightarrow> matrix option \<Rightarrow> matrix option" where
  "accumulate weight [] bf = bf"
| "accumulate weight ((a, f) # rest) bf =
     accumulate weight rest
       (Some (case bf of None \<Rightarrow> acc weight a f | Some b \<Rightarrow> m_add b (acc weight a f)))"

text \<open>
  The normalisation: \<open>min\<close> and \<open>max\<close> over the barycenter points (the rows), one per
  feature (column), then \<open>2 * (x - min) / (max - min) - 1\<close> on every entry.
\<close>

definition rescale :: "fl \<Rightarrow> fl \<Rightarrow> fl \<Rightarrow> fl" where
  "rescale x mn mx = fl_sub (fl_div (fl_mul (Fin 2) (fl_sub x mn)) (fl_sub mx mn)) (Fin 1)"

definition normalize :: "matrix \<Rightarrow> error + matrix" where
  "normalize bf =
     (if bf = [] then Inl RuntimeError
      else
        let min_val = map (\<lambda>k. torch_min (column bf k)) [0..<width bf];
            max_val = map (\<lambda>k. torch_max (column bf k)) [0..<width bf]
        in Inr (m_T (map (\<lambda>r. map (\<lambda>(x, mn, mx). rescale x mn mx) (zip r (zip min_val max_val)))
                      bf)))"

text \<open>
  \<open>update_barycenter_features(plans, features_list, device)\<close>. With no individual the
  accumulator is read before it is bound; with no barycenter point the reduction over an
  empty dimension fails.
\<close>

definition update_barycenter_features :: "sparse list \<Rightarrow> matrix list \<Rightarrow> error + matrix" where
  "update_barycenter_features plans features_list =
     (case accumulate (Fin (1 / real (length features_list))) (zip plans features_list) None of
        None \<Rightarrow> Inl UnboundLocalError
      | Some bf \<Rightarrow> normalize bf)"

text \<open>
  The coarse-to-fine alignment \<open>coarse_to_fine.fit\<close> and the two mapping objects it
  fills belong to other modules. The fitter is modelled over any such collaborator: a
  function from the arguments that vary from call to call to what the fitter reads
  afterwards, or to the error it raises. The other keyword arguments (geometry embedding,
  mesh sample, solver and its parameters, selection radius, the coarse and fine
  \<open>alpha\<close>, \<open>rho\<close>, \<open>eps\<close> and \<open>reg_mode\<close>, device, verbosity) are the same in every
  call of one \<open>fit\<close>. Tensors are passed by value. The sparsity mask is an opaque value
  of type \<open>'m\<close>; \<open>None\<close> is Python's \<open>None\<close>.
\<close>

record 'm c2f_args =
  arg_source_features :: matrix
  arg_target_features :: matrix
  arg_source_weights :: vec
  arg_target_weights :: vec
  arg_init_plan :: "sparse option"
  arg_sparsity_mask :: "'m option"

text \<open>
  What the fitter reads after a call: \<open>fine_mapping.pi\<close>, \<open>fine_mapping.loss\<close>,
  \<open>fine_mapping.loss_steps\<close>, \<open>fine_mapping.loss_times\<close> and the third component of the
  returned triple.
\<close>

record ('m, 'l) c2f_result =
  fine_pi :: sparse
  fine_loss :: 'l
  fine_loss_steps :: "nat list"
  fine_loss_times :: "fl list"
  ret_sparsity_mask :: "'m option"

type_synonym ('m, 'l) c2f = "'m c2f_args \<Rightarrow> error + ('m, 'l) c2f_result"

type_synonym 'l loss_entry = "'l \<times> nat list \<times> fl list"

text \<open>
  \<open>compute_all_ot_plans\<close>: the loop over \<open>enumerate(zip(features_list, weights_list))\<close>.
  Its state is \<open>new_plans\<close>, \<open>new_losses\<close> and the variable \<open>sparsity_mask\<close>, which
  every call of the collaborator overwrites. Next to its result the function gives the
  arguments of the calls it made, in order.
\<close>

fun ot_plans_loop ::
  "('m, 'l) c2f \<Rightarrow> sparse list option \<Rightarrow> vec \<Rightarrow> matrix \<Rightarrow> (nat \<times> matrix \<times> vec) list \<Rightarrow>
   sparse list \<times> 'l loss_entry list \<times> 'm option \<Rightarrow>
   'm c2f_args list \<times> (error + sparse list \<times> 'l loss_entry list \<times> 'm option)" where
  "ot_plans_loop fit_c2f plans barycenter_weights barycenter_features [] st = ([], Inr st)"
| "ot_plans_loop fit_c2f plans barycenter_weights barycenter_features
     ((i, features, weights) # rest) (new_plans, new_losses, smask) =
     (case (case plans of
              None \<Rightarrow> Inr None
            | Some ps \<Rightarrow> if i < length ps then Inr (Some (ps ! i)) else Inl IndexError) of
        Inl e \<Rightarrow> ([], Inl e)
      | Inr init \<Rightarrow>
          let args = \<lparr>arg_source_features = features,
                      arg_target_features = barycenter_features,
                      arg_source_weights = weights,
                      arg_target_weights = barycenter_weights,
                      arg_init_plan = init,
                      arg_sparsity_mask = smask\<rparr>
          in (case fit_c2f args of
                Inl e \<Rightarrow> ([args], Inl e)
              | Inr r \<Rightarrow>
                  if list_ex isnan (sp_values (fine_pi r))
                  then ([args], Inl (ValueError ''Fine plan contains NaN values''))
                  else
                    let (calls, res) =
                          ot_plans_loop fit_c2f plans barycenter_weights barycenter_features rest
                            (new_plans @ [fine_pi r],
                             new_losses @ [(fine_loss r, fine_loss_steps r, fine_loss_times r)],
                             ret_sparsity_mask r)
                    in (args # calls, res)))"

definition compute_all_ot_plans ::
  "('m, 'l) c2f \<Rightarrow> sparse list option \<Rightarrow> vec list \<Rightarrow> matrix list \<Rightarrow> vec \<Rightarrow> matrix \<Rightarrow>
   'm option \<Rightarrow>
   'm c2f_args list \<times> (error + sparse list \<times> 'l loss_entry list \<times> 'm option)" where
  "compute_all_ot_plans fit_c2f plans weights_list features_list barycenter_weights
     barycenter_features smask =
     ot_plans_loop fit_c2f plans barycenter_weights barycenter_features
       (enumerate 0 (zip features_list weights_list)) ([], [], smask)"

text \<open>
  The local variables of \<open>fit\<close> that its loop reads and assigns, and the dictionary of
  them that the callback receives at the end of a round.
\<close>

record ('m, 'l) fit_state =
  barycenter_weights :: vec
  barycenter_features :: matrix
  plans :: "sparse list option"
  sparsity_mask :: "'m option"
  losses_each_bar_step :: "'l loss_entry list list"

record ('m, 'l) fit_locals =
  locals_idx :: nat
  locals_losses :: "'l loss_entry list"
  locals_state :: "('m, 'l) fit_state"

text \<open>A callback returns nothing or raises.\<close>

type_synonym ('m, 'l) callback = "('m, 'l) fit_locals \<Rightarrow> error option"

text \<open>
  One round of the loop of \<open>fit\<close>: all plans, the losses appended, the features
  updated, the callback. The list of calls of the round comes with the outcome.
\<close>

definition fit_round ::
  "('m, 'l) c2f \<Rightarrow> ('m, 'l) callback option \<Rightarrow> vec list \<Rightarrow> matrix list \<Rightarrow> nat \<Rightarrow>
   ('m, 'l) fit_state \<Rightarrow> 'm c2f_args list \<times> (error + ('m, 'l) fit_state)" where
  "fit_round fit_c2f callback_barycenter weights_list features_list idx st =
     (case compute_all_ot_plans fit_c2f (plans st) weights_list features_list
             (barycenter_weights st) (barycenter_features st) (sparsity_mask st) of
        (calls, Inl e) \<Rightarrow> (calls, Inl e)
      | (calls, Inr (new_plans, losses, smask)) \<Rightarrow>
          (case update_barycenter_features new_plans features_list of
             Inl e \<Rightarrow> (calls, Inl e)
           | Inr bf \<Rightarrow>
               let st' = st\<lparr>plans := Some new_plans,
                            sparsity_mask := smask,
                            losses_each_bar_step := losses_each_bar_step st @ [losses],
                            barycenter_features := bf\<rparr>
               in (case callback_barycenter of
                     None \<Rightarrow> (calls, Inr st')
                   | Some cb \<Rightarrow>
                       (case cb \<lparr>locals_idx = idx, locals_losses = losses, locals_state = st'\<rparr> of
                          Some e \<Rightarrow> (calls, Inl e)
                        | None \<Rightarrow> (calls, Inr st')))))"

text \<open>
  \<open>for idx in range(nits_barycenter)\<close>. The calls are kept round by round: one list per
  round that was started.
\<close>

fun fit_loop ::
  "('m, 'l) c2f \<Rightarrow> ('m, 'l) callback option \<Rightarrow> vec list \<Rightarrow> matrix list \<Rightarrow> nat list \<Rightarrow>
   ('m, 'l) fit_state \<Rightarrow> 'm c2f_args list list \<times> (error + ('m, 'l) fit_state)" where
  "fit_loop fit_c2f callback_barycenter weights_list features_list [] st = ([], Inr st)"
| "fit_loop fit_c2f callback_barycenter weights_list features_list (idx # rest) st =
     (case fit_round fit_c2f callback_barycenter weights_list features_list idx st of
        (calls, Inl e) \<Rightarrow> ([calls], Inl e)
      | (calls, Inr st') \<Rightarrow>
          let (rounds, res) =
                fit_loop fit_c2f callback_barycenter weights_list features_list rest st'
          in (calls # rounds, res))"

text \<open>
  \<open>fit\<close>. \<open>barycenter_size\<close> defaults to the number of weights of the first individual;
  the weights default to the uniform vector, the features to a matrix of ones with one
  row per feature, each row divided by its norm. The result is the tuple
  \<open>(barycenter_weights, barycenter_features, plans, losses_each_bar_step)\<close>.
\<close>

definition fit ::
  "('m, 'l) c2f \<Rightarrow> vec list \<Rightarrow> matrix list \<Rightarrow> nat option \<Rightarrow> vec option \<Rightarrow> matrix option \<Rightarrow>
   int \<Rightarrow> ('m, 'l) callback option \<Rightarrow>
   'm c2f_args list list \<times>
   (error + vec \<times> matrix \<times> sparse list option \<times> 'l loss_entry list list)" where
  "fit fit_c2f weights_list features_list barycenter_size init_barycenter_weights
     init_barycenter_features nits_barycenter callback_barycenter =
     (case (case barycenter_size of
              Some n \<Rightarrow> Inr n
            | None \<Rightarrow> (case weights_list of [] \<Rightarrow> Inl IndexError | w # _ \<Rightarrow> Inr (length w))) of
        Inl e \<Rightarrow> ([], Inl e)
      | Inr bsize \<Rightarrow>
          let weights0 =
                (case init_barycenter_weights of
                   None \<Rightarrow> replicate bsize (fl_div (Fin 1) (Fin (real bsize)))
                 | Some w \<Rightarrow> w)
          in (case (case init_barycenter_features of
                      Some f \<Rightarrow> Inr f
                    | None \<Rightarrow>
                        (case features_list of
                           [] \<Rightarrow> Inl IndexError
                         | f # _ \<Rightarrow>
                             Inr (replicate (length f)
                                    (replicate bsize (fl_div (Fin 1) (Fin (sqrt (real bsize)))))))) of
                Inl e \<Rightarrow> ([], Inl e)
              | Inr features0 \<Rightarrow>
                  (case fit_loop fit_c2f callback_barycenter weights_list features_list
                          [0..<nat nits_barycenter]
                          \<lparr>barycenter_weights = weights0,
                           barycenter_features = features0,
                           plans = None,
                           sparsity_mask = None,
                           losses_each_bar_step = []\<rparr> of
                     (rounds, Inl e) \<Rightarrow> (rounds, Inl e)
                   | (rounds, Inr st) \<Rightarrow>
                       (rounds,
                        Inr (barycenter_weights st, barycenter_features st, plans st,
                             losses_each_bar_step st)))))"

section \<open>Reading a run of the fitter\<close>

text \<open>
  The keyword arguments of one call of the collaborator, for the item
  \<open>(i, features, weights)\<close> of the enumeration.
\<close>

definition call_args ::
  "sparse list option \<Rightarrow> vec \<Rightarrow> matrix \<Rightarrow> nat \<times> matrix \<times> vec \<Rightarrow> 'm option \<Rightarrow> 'm c2f_args" where
  "call_args ps bw bf item m =
     \<lparr>arg_source_features = fst (snd item),
      arg_target_features = bf,
      arg_source_weights = snd (snd item),
      arg_target_weights = bw,
      arg_init_plan = map_option (\<lambda>l. l ! fst item) ps,
      arg_sparsity_mask = m\<rparr>"

text \<open>
  What a call that returned has produced: the plan, the sparsity mask and the loss entry.
\<close>

definition pi_of :: "('m, 'l) c2f \<Rightarrow> 'm c2f_args \<Rightarrow> sparse" where
  "pi_of c2f a = fine_pi (projr (c2f a))"

definition mask_of :: "('m, 'l) c2f \<Rightarrow> 'm c2f_args \<Rightarrow> 'm option" where
  "mask_of c2f a = ret_sparsity_mask (projr (c2f a))"

definition loss_of :: "('m, 'l) c2f \<Rightarrow> 'm c2f_args \<Rightarrow> 'l loss_entry" where
  "loss_of c2f a =
     (fine_loss (projr (c2f a)), fine_loss_steps (projr (c2f a)), fine_loss_times (projr (c2f a)))"

text \<open>
  A collaborator for the examples: a barycenter of one point, a plan with one stored
  entry, the mask \<open>7\<close>; two individuals with one and two points and one feature; the
  plan it returns for an individual of \<open>n\<close> points, and the arguments of its calls.
\<close>

definition example_c2f :: "(nat, nat) c2f" where
  "example_c2f a =
     Inr \<lparr>fine_pi = \<lparr>nrows = length (arg_source_weights a),
                      ncols = 1,
                      entries = [(0, 0, Fin 1)]\<rparr>,
          fine_loss = 0,
          fine_loss_steps = [],
          fine_loss_times = [],
          ret_sparsity_mask = Some 7\<rparr>"

definition example_weights :: "vec list" where
  "example_weights = [[Fin 1], [Fin (1 / 2), Fin (1 / 2)]]"

definition example_features :: "matrix list" where
  "example_features = [[[Fin 1]], [[Fin 1, Fin 2]]]"

definition example_plan :: "nat \<Rightarrow> sparse" where
  "example_plan n = \<lparr>nrows = n, ncols = 1, entries = [(0, 0, Fin 1)]\<rparr>"

definition example_call :: "nat \<Rightarrow> matrix \<Rightarrow> sparse option \<Rightarrow> nat option \<Rightarrow> nat c2f_args" where
  "example_call i bf init m =
     \<lparr>arg_source_features = example_features ! i,
      arg_target_features = bf,
      arg_source_weights = example_weights ! i,
      arg_target_weights = [Fin 1],
      arg_init_plan = init,
      arg_sparsity_mask = m\<rparr>"

text \<open>
  The barycenter weights at initialisation, as the specification words them: the vector
  supplied, or else the uniform distribution over \<open>barycenter_size\<close> points.
\<close>

definition initial_weights :: "vec list \<Rightarrow> nat option \<Rightarrow> vec option \<Rightarrow> vec" where
  "initial_weights weights_list barycenter_size init_barycenter_weights =
     (case init_barycenter_weights of
        Some w \<Rightarrow> w
      | None \<Rightarrow>
          (let n = (case barycenter_size of Some n \<Rightarrow> n | None \<Rightarrow> length (hd weights_list))
           in replicate n (Fin (1 / real n))))"

text \<open>Two rounds of \<open>fit\<close> on the example.\<close>

definition example_fit_result ::
  "nat c2f_args list list \<times>
   (error + vec \<times> matrix \<times> sparse list option \<times> nat loss_entry list list)" where
  "example_fit_result =
     fit example_c2f example_weights example_features None None (Some [[Fin 1]]) 2 None"

section \<open>Shapes, and a plan for the examples\<close>

text \<open>A dense matrix all of whose rows have \<open>d\<close> entries.\<close>

definition rect :: "matrix \<Rightarrow> nat \<Rightarrow> bool" where
  "rect m d = (\<forall>r\<in>set m. length r = d)"

text \<open>
  A plan that sends the one point of an individual to both points of a barycenter.
\<close>

definition example_plan2 :: sparse where
  "example_plan2 = \<lparr>nrows = 1, ncols = 2, entries = [(0, 0, Fin 1), (0, 1, Fin 1)]\<rparr>"

section \<open>Runs of the solvers\<close>

text \<open>The state after \<open>k\<close> iterations that neither raise nor break, from index 0.\<close>

fun traj :: "(nat \<Rightarrow> 's \<Rightarrow> 's) \<Rightarrow> 's \<Rightarrow> nat \<Rightarrow> 's" where
  "traj step s 0 = s"
| "traj step s (Suc k) = step k (traj step s k)"

text \<open>
  Where a loop ends: at the first index whose iteration raises or breaks, or else after
  the last index.
\<close>

definition quiet :: "(nat \<Rightarrow> 's \<Rightarrow> bool) \<Rightarrow> (nat \<Rightarrow> 's \<Rightarrow> bool) \<Rightarrow> (nat \<Rightarrow> 's) \<Rightarrow> nat \<Rightarrow> nat \<Rightarrow> bool" where
  "quiet bad stop T a k = (\<forall>j. a \<le> j \<and> j < k \<longrightarrow> \<not> bad j (T j) \<and> \<not> stop j (T j))"

text \<open>
  The dc solver, iteration \<open>idx\<close> on the state \<open>(u, v, pi, m1)\<close>: whether it is an evaluation
  checkpoint, the row masses recomputed after the update, whether they hold a NaN or an
  infinity, whether their largest absolute change is below \<open>tol\<close>, and the state the
  iteration leaves.
\<close>

definition checkpoint :: "train_params \<Rightarrow> nat \<Rightarrow> bool" where
  "checkpoint t idx = (int idx mod eval_freq t = 0)"

definition dc_row_mass ::
  "matrix \<Rightarrow> uot_params \<Rightarrow> fl \<Rightarrow> vec \<Rightarrow> vec \<Rightarrow> vec \<times> vec \<times> matrix \<times> vec \<Rightarrow> vec" where
  "dc_row_mass K p eps_base px py s =
     (case s of (u, v, cpl, m1) \<Rightarrow> sum_dim1 (snd (snd (dc_ipot K p eps_base px py (u, v, cpl)))))"

definition dc_nonfinite ::
  "matrix \<Rightarrow> uot_params \<Rightarrow> train_params \<Rightarrow> fl \<Rightarrow> vec \<Rightarrow> vec \<Rightarrow> nat \<Rightarrow>
   vec \<times> vec \<times> matrix \<times> vec \<Rightarrow> bool" where
  "dc_nonfinite K p t eps_base px py idx s =
     (checkpoint t idx \<and>
      (list_ex isnan (dc_row_mass K p eps_base px py s) \<or>
       list_ex isinf (dc_row_mass K p eps_base px py s)))"

definition dc_converged ::
  "matrix \<Rightarrow> uot_params \<Rightarrow> train_params \<Rightarrow> fl \<Rightarrow> vec \<Rightarrow> vec \<Rightarrow> nat \<Rightarrow>
   vec \<times> vec \<times> matrix \<times> vec \<Rightarrow> bool" where
  "dc_converged K p t eps_base px py idx s =
     (checkpoint t idx \<and>
      fl_lt (max_abs_diff (dc_row_mass K p eps_base px py s) (snd (snd (snd s)))) (tol t))"

definition dc_step ::
  "matrix \<Rightarrow> uot_params \<Rightarrow> train_params \<Rightarrow> fl \<Rightarrow> vec \<Rightarrow> vec \<Rightarrow> nat \<Rightarrow>
   vec \<times> vec \<times> matrix \<times> vec \<Rightarrow> vec \<times> vec \<times> matrix \<times> vec" where
  "dc_step K p t eps_base px py idx s =
     (case s of (u, v, cpl, m1) \<Rightarrow>
        (case dc_ipot K p eps_base px py (u, v, cpl) of (u', v', cpl') \<Rightarrow>
           (u', v', cpl', if checkpoint t idx then sum_dim1 cpl' else m1)))"

text \<open>The shapes the loop keeps: \<open>u\<close>, the coupling and \<open>m1\<close> have one entry per row.\<close>

definition dc_inv :: "nat \<Rightarrow> vec \<times> vec \<times> matrix \<times> vec \<Rightarrow> bool" where
  "dc_inv n s = (case s of (u, v, cpl, m1) \<Rightarrow> length u = n \<and> length cpl = n \<and> length m1 = n)"

text \<open>
  A call of \<open>solver_dc\<close>, seen without its tests: the kernel \<open>K\<close>, the state after \<open>k\<close>
  iterations, whether iteration \<open>k\<close> would raise and whether it would break, whether the
  loop gets as far as iteration \<open>k\<close>, and what is returned from a final state.
\<close>

definition dc_K :: "matrix \<Rightarrow> uot_params \<Rightarrow> fl \<Rightarrow> matrix" where
  "dc_K cost p eps_base =
     m_map fl_exp (m_map (\<lambda>c. fl_div (fl_neg c) (fl_add eps_base (eps p))) cost)"

definition dc_run ::
  "matrix \<Rightarrow> matrix \<Rightarrow> vec \<times> vec \<Rightarrow> uot_params \<Rightarrow> vec \<times> vec \<times> matrix \<Rightarrow> train_params \<Rightarrow> fl \<Rightarrow> nat \<Rightarrow>
   vec \<times> vec \<times> matrix \<times> vec" where
  "dc_run cost init_pi init_duals p tuple_pxy t eps_base k =
     (case tuple_pxy of (px, py, pxy) \<Rightarrow>
        traj (dc_step (dc_K cost p eps_base) p t eps_base px py)
          (fst init_duals, snd init_duals, init_pi, sum_dim1 init_pi) k)"

definition dc_raises_at ::
  "matrix \<Rightarrow> matrix \<Rightarrow> vec \<times> vec \<Rightarrow> uot_params \<Rightarrow> vec \<times> vec \<times> matrix \<Rightarrow> train_params \<Rightarrow> fl \<Rightarrow> nat \<Rightarrow>
   bool" where
  "dc_raises_at cost init_pi init_duals p tuple_pxy t eps_base k =
     (case tuple_pxy of (px, py, pxy) \<Rightarrow>
        dc_nonfinite (dc_K cost p eps_base) p t eps_base px py k
          (dc_run cost init_pi init_duals p tuple_pxy t eps_base k))"

definition dc_breaks_at ::
  "matrix \<Rightarrow> matrix \<Rightarrow> vec \<times> vec \<Rightarrow> uot_params \<Rightarrow> vec \<times> vec \<times> matrix \<Rightarrow> train_params \<Rightarrow> fl \<Rightarrow> nat \<Rightarrow>
   bool" where
  "dc_breaks_at cost init_pi init_duals p tuple_pxy t eps_base k =
     (case tuple_pxy of (px, py, pxy) \<Rightarrow>
        dc_converged (dc_K cost p eps_base) p t eps_base px py k
          (dc_run cost init_pi init_duals p tuple_pxy t eps_base k))"

definition dc_reaches ::
  "matrix \<Rightarrow> matrix \<Rightarrow> vec \<times> vec \<Rightarrow> uot_params \<Rightarrow> vec \<times> vec \<times> matrix \<Rightarrow> train_params \<Rightarrow> fl \<Rightarrow> nat \<Rightarrow>
   bool" where
  "dc_reaches cost init_pi init_duals p tuple_pxy t eps_base k =
     (\<forall>j<k. \<not> dc_raises_at cost init_pi init_duals p tuple_pxy t eps_base j \<and>
            \<not> dc_breaks_at cost init_pi init_duals p tuple_pxy t eps_base j)"

definition dc_result :: "matrix \<Rightarrow> vec \<times> vec \<times> matrix \<times> vec \<Rightarrow> (vec \<times> vec) \<times> matrix" where
  "dc_result pxy s = (case s of (u, v, cpl, m1) \<Rightarrow> ((u, v), m_map2 fl_mul cpl pxy))"

text \<open>Parameters for the examples.\<close>

definition example_uot :: uot_params where
  "example_uot = \<lparr>rho_x = Fin 1, rho_y = Fin 1, eps = Fin 1\<rparr>"

definition example_train :: train_params where
  "example_train = \<lparr>niters = 1, tol = Fin 0, eval_freq = 1\<rparr>"

text \<open>
  The scaling solver as the specification words it, entry by entry, for marginals
  \<open>px\<close>, \<open>py\<close>: the new \<open>vy\<close> at target point \<open>j\<close> is \<open>-tau_y\<close> times the \<open>logsumexp\<close> over
  the source points \<open>i\<close> of \<open>vx[i] + log px[i] - C[i, j] / eps\<close>, the new \<open>vx\<close> at source
  point \<open>i\<close> is \<open>-tau_x\<close> times the \<open>logsumexp\<close> over the target points \<open>j\<close> of
  \<open>vy[j] + log py[j] - C[i, j] / eps\<close>, with \<open>tau = rho / (rho + eps)\<close>, or \<open>1\<close> for an
  infinite \<open>rho\<close>; a dual whose \<open>rho\<close> is zero is zero. The coupling is
  \<open>px[i] * py[j] * exp (vx[i] + vy[j] - C[i, j] / eps)\<close>.
\<close>

definition scaling_vy_entry :: "nat \<Rightarrow> matrix \<Rightarrow> uot_params \<Rightarrow> vec \<Rightarrow> vec \<Rightarrow> nat \<Rightarrow> fl" where
  "scaling_vy_entry n cost p px vx j =
     (if rho_y p = Fin 0 then Fin 0
      else fl_mul (fl_neg (if isinf (rho_y p) then Fin 1
                           else fl_div (rho_y p) (fl_add (rho_y p) (eps p))))
             (logsumexp (map (\<lambda>i. fl_sub (fl_add (vx ! i) (fl_log (px ! i)))
                                    (fl_div (cost ! i ! j) (eps p))) [0..<n])))"

definition scaling_vx_entry :: "nat \<Rightarrow> matrix \<Rightarrow> uot_params \<Rightarrow> vec \<Rightarrow> vec \<Rightarrow> nat \<Rightarrow> fl" where
  "scaling_vx_entry m cost p py vy i =
     (if rho_x p = Fin 0 then Fin 0
      else fl_mul (fl_neg (if isinf (rho_x p) then Fin 1
                           else fl_div (rho_x p) (fl_add (rho_x p) (eps p))))
             (logsumexp (map (\<lambda>j. fl_sub (fl_add (vy ! j) (fl_log (py ! j)))
                                    (fl_div (cost ! i ! j) (eps p))) [0..<m])))"

definition scaling_pi_entry :: "matrix \<Rightarrow> uot_params \<Rightarrow> vec \<Rightarrow> vec \<Rightarrow> vec \<Rightarrow> vec \<Rightarrow> nat \<Rightarrow> nat \<Rightarrow> fl" where
  "scaling_pi_entry cost p px py vx vy i j =
     fl_mul (fl_mul (px ! i) (py ! j))
       (fl_exp (fl_sub (fl_add (vx ! i) (vy ! j)) (fl_div (cost ! i ! j) (eps p))))"

text \<open>
  A call of \<open>solver_scaling\<close> seen without its test: the duals after \<open>k\<close> iterations;
  what one iteration does to them (first \<open>vy\<close> from the old \<open>vx\<close>, then \<open>vx\<close> from the
  new \<open>vy\<close>); the test of the loop; the shapes the loop keeps.
\<close>

definition scaling_run :: "matrix \<Rightarrow> vec \<times> vec \<Rightarrow> uot_params \<Rightarrow> vec \<Rightarrow> vec \<Rightarrow> nat \<Rightarrow> vec \<times> vec" where
  "scaling_run cost init_duals p px py k =
     traj (\<lambda>idx. scaling_step cost p (map fl_log px) (map fl_log py)) init_duals k"

definition scaling_update ::
  "nat \<Rightarrow> nat \<Rightarrow> matrix \<Rightarrow> uot_params \<Rightarrow> vec \<Rightarrow> vec \<Rightarrow> vec \<times> vec \<Rightarrow> vec \<times> vec \<Rightarrow> bool" where
  "scaling_update n m cost p px py old new =
     (length (fst new) = n \<and> length (snd new) = m \<and>
      (\<forall>j<m. snd new ! j = scaling_vy_entry n cost p px (fst old) j) \<and>
      (\<forall>i<n. fst new ! i = scaling_vx_entry m cost p py (snd new) i))"

definition scaling_converged ::
  "matrix \<Rightarrow> uot_params \<Rightarrow> train_params \<Rightarrow> vec \<Rightarrow> vec \<Rightarrow> nat \<Rightarrow> vec \<times> vec \<Rightarrow> bool" where
  "scaling_converged cost p t log_px log_py idx s =
     (checkpoint t idx \<and>
      fl_lt (py_max (max_abs_diff (fst (scaling_step cost p log_px log_py s)) (fst s))
                    (max_abs_diff (snd (scaling_step cost p log_px log_py s)) (snd s)))
        (tol t))"

text \<open>
  The same test read on two consecutive states of a run: iteration \<open>idx\<close> is a checkpoint
  and the larger of the greatest absolute changes of \<open>vx\<close> and of \<open>vy\<close> is below \<open>tol\<close>.
\<close>

definition scaling_stable :: "train_params \<Rightarrow> vec \<times> vec \<Rightarrow> vec \<times> vec \<Rightarrow> nat \<Rightarrow> bool" where
  "scaling_stable t old new idx =
     (checkpoint t idx \<and>
      fl_lt (py_max (max_abs_diff (fst new) (fst old)) (max_abs_diff (snd new) (snd old)))
        (tol t))"

definition vec_inv :: "nat \<Rightarrow> nat \<Rightarrow> vec \<times> vec \<Rightarrow> bool" where
  "vec_inv n m s = (length (fst s) = n \<and> length (snd s) = m)"

text \<open>
  The mm solver as the specification words it, for finite \<open>rho_x\<close>, \<open>rho_y\<close>, \<open>eps\<close> with
  sum \<open>S\<close>, \<open>tau_x = rho_x / S\<close>, \<open>tau_y = rho_y / S\<close>, \<open>r = eps / S\<close>: the kernel
  \<open>K[i, j] = px[i] ** (tau_x + r) * py[j] ** (tau_y + r) * exp (- C[i, j] / S)\<close> and the
  update \<open>pi[i, j] ** (tau_x + tau_y) / (pi1[i] ** tau_x * pi2[j] ** tau_y) * K[i, j]\<close> with
  the row masses \<open>pi1\<close> and the column masses \<open>pi2\<close> of \<open>pi\<close>.
\<close>

definition mm_K_entry :: "matrix \<Rightarrow> real \<Rightarrow> real \<Rightarrow> real \<Rightarrow> vec \<Rightarrow> vec \<Rightarrow> nat \<Rightarrow> nat \<Rightarrow> fl" where
  "mm_K_entry cost rx ry e px py i j =
     (let S = rx + ry + e; tau_x = rx / S; tau_y = ry / S; r = e / S
      in fl_mul (fl_mul (fl_pow (px ! i) (Fin (tau_x + r))) (fl_pow (py ! j) (Fin (tau_y + r))))
           (fl_exp (fl_div (fl_neg (cost ! i ! j)) (Fin S))))"

definition row_mass :: "matrix \<Rightarrow> nat \<Rightarrow> fl" where
  "row_mass cpl i = fl_sum (cpl ! i)"

definition col_mass :: "matrix \<Rightarrow> nat \<Rightarrow> fl" where
  "col_mass cpl j = fl_sum (map (\<lambda>i. cpl ! i ! j) [0..<length cpl])"

definition mm_pi_entry :: "real \<Rightarrow> real \<Rightarrow> real \<Rightarrow> matrix \<Rightarrow> matrix \<Rightarrow> nat \<Rightarrow> nat \<Rightarrow> fl" where
  "mm_pi_entry rx ry e K cpl i j =
     (let S = rx + ry + e; tau_x = rx / S; tau_y = ry / S
      in fl_mul
           (fl_div (fl_pow (cpl ! i ! j) (Fin (tau_x + tau_y)))
              (fl_mul (fl_pow (row_mass cpl i) (Fin tau_x)) (fl_pow (col_mass cpl j) (Fin tau_y))))
           (K ! i ! j))"

text \<open>
  The test of the mm loop at index \<open>idx\<close>: a checkpoint at which the larger of the
  greatest absolute changes of the row masses and of the column masses is below
  \<open>tol\<close>. Then the coupling after \<open>k\<close> iterations, and what the loop keeps.
\<close>

definition mm_stable :: "train_params \<Rightarrow> matrix \<Rightarrow> matrix \<Rightarrow> nat \<Rightarrow> bool" where
  "mm_stable t old new idx =
     (checkpoint t idx \<and>
      fl_lt (py_max (max_abs_diff (sum_dim1 new) (sum_dim1 old))
                    (max_abs_diff (sum_dim0 new) (sum_dim0 old)))
        (tol t))"

definition mm_run :: "matrix \<Rightarrow> matrix \<Rightarrow> uot_params \<Rightarrow> vec \<times> vec \<Rightarrow> nat \<Rightarrow> matrix" where
  "mm_run cost init_pi p tuple_pxy k =
     snd (snd (traj (\<lambda>idx. mm_step p (mm_K cost p (fst tuple_pxy) (snd tuple_pxy)))
                 (sum_dim1 init_pi, sum_dim0 init_pi, init_pi) k))"

definition mm_inv :: "nat \<Rightarrow> nat \<Rightarrow> vec \<times> vec \<times> matrix \<Rightarrow> bool" where
  "mm_inv n m s =
     (case s of (pi1, pi2, cpl) \<Rightarrow>
        length cpl = n \<and> rect cpl m \<and> pi1 = sum_dim1 cpl \<and> pi2 = sum_dim0 cpl)"

section \<open>Rounding to single precision\<close>

lemma round_even_int: "round_even (of_int n) = n"
  by (simp add: round_even_def)

lemma round_even_ge: "of_int k \<le> r \<Longrightarrow> k \<le> round_even r"
proof -
  assume "of_int k \<le> r"
  then have "k \<le> \<lfloor>r\<rfloor>" by (simp add: le_floor_iff)
  then show ?thesis by (simp add: round_even_def Let_def)
qed

lemma round_even_le: "r \<le> of_int k \<Longrightarrow> round_even r \<le> k"
proof (cases "r = of_int k")
  case True
  then show ?thesis by (simp add: round_even_int)
next
  case False
  assume "r \<le> of_int k"
  with False have "r < of_int k" by simp
  then have "\<lfloor>r\<rfloor> < k" by (simp add: floor_less_iff)
  then show ?thesis by (simp add: round_even_def Let_def)
qed

text \<open>Powers of two, \<open>k\<close> binades up.\<close>

lemma powr_shift: "(2::real) powr of_int (e + int k) = 2 powr of_int e * 2 ^ k"
proof -
  have "(2::real) powr of_int (e + int k) = 2 powr (of_int e + real k)" by simp
  also have "\<dots> = 2 powr of_int e * 2 powr real k" by (rule powr_add)
  also have "2 powr real k = (2::real) ^ k" by (simp add: powr_realpow)
  finally show ?thesis .
qed

lemma ulp32_pos: "0 < ulp32 x"
  by (simp add: ulp32_def)

lemma ulp32_abs: "ulp32 (s * y) = ulp32 y" if "\<bar>s\<bar> = 1"
  using that by (simp add: ulp32_def abs_mult)

lemma ulp32_normal:
  assumes e: "- 126 \<le> e" and lo: "2 powr of_int e \<le> y" and hi: "y < 2 powr of_int (e + 1)"
  shows "ulp32 y = 2 powr of_int (e - 23)"
proof -
  have "0 < (2::real) powr of_int e" by simp
  with lo have y: "0 < y" by linarith
  then have "\<lfloor>log 2 y\<rfloor> = e"
    using lo hi by (simp add: floor_log_eq_powr_iff)
  with y e show ?thesis by (simp add: ulp32_def max_def)
qed

lemma ulp32_subnormal:
  assumes y: "0 < y" and hi: "y < 2 powr of_int (- 126)"
  shows "ulp32 y = 2 powr of_int (- 126 - 23)"
proof -
  define l where "l = \<lfloor>log 2 y\<rfloor>"
  from y have "2 powr of_int l \<le> y"
    using floor_log_eq_powr_iff [of y 2 l] by (simp add: l_def)
  with hi have "(2::real) powr of_int l < 2 powr of_int (- 126)" by linarith
  then have "l < - 126" by simp
  with y show ?thesis by (simp add: ulp32_def l_def max_def)
qed


lemma powr_shift': "e' = e + int k \<Longrightarrow> (2::real) powr of_int e' = 2 powr of_int e * 2 ^ k"
  by (simp only: powr_shift)

lemma round32_grid:
  assumes sg: "significand e n" and s: "\<bar>s\<bar> = 1"
    and fin: "of_int n * 2 powr of_int (e - 23) < (2::real) ^ 128"
  shows "round32 (s * (of_int n * 2 powr of_int (e - 23))) = Fin (s * (of_int n * 2 powr of_int (e - 23)))"
proof (cases "n = 0")
  case True
  then show ?thesis by (simp add: round32_def)
next
  case False
  define u :: real where "u = 2 powr of_int (e - 23)"
  define y where "y = of_int n * u"
  from sg False have n: "0 < n" "n \<le> 2 ^ 24" and e: "- 126 \<le> e"
    and nrm: "- 126 < e \<longrightarrow> 2 ^ 23 \<le> n"
    by (simp_all add: significand_def)
  have u: "0 < u" by (simp add: u_def)
  with n have y: "0 < y" by (simp add: y_def)
  have p23: "2 powr of_int e = u * 2 ^ 23"
    using powr_shift' [of e "e - 23" 23] by (simp add: u_def)
  have p24: "2 powr of_int (e + 1) = u * 2 ^ 24"
    using powr_shift' [of "e + 1" "e - 23" 24] by (simp add: u_def)
  have p25: "2 powr of_int (e + 1 + 1) = u * 2 ^ 25"
    using powr_shift' [of "e + 1 + 1" "e - 23" 25] by (simp add: u_def)
  have "\<exists>m. y = of_int m * ulp32 y"
  proof -
    consider "n < 2 ^ 23" | "2 ^ 23 \<le> n" "n < 2 ^ 24" | "n = 2 ^ 24"
      using n(2) by linarith
    then show ?thesis
    proof cases
      case 1
      with nrm e have e': "e = - 126" by simp
      from 1 have "of_int n < (2::real) ^ 23"
        by (metis of_int_less_iff of_int_numeral of_int_power)
      with u have "y < u * 2 ^ 23" by (simp add: y_def mult.commute)
      then have "y < 2 powr of_int (- 126)" using p23 e' by simp
      with y have "ulp32 y = 2 powr of_int (- 126 - 23)" by (rule ulp32_subnormal)
      then have "ulp32 y = u" by (simp add: u_def e')
      then show ?thesis by (auto simp: y_def)
    next
      case 2
      from 2 have "(2::real) ^ 23 \<le> of_int n" "of_int n < (2::real) ^ 24"
        by (metis of_int_le_iff of_int_numeral of_int_power,
            metis of_int_less_iff of_int_numeral of_int_power)
      with u have "u * 2 ^ 23 \<le> y" "y < u * 2 ^ 24" by (simp_all add: y_def mult.commute)
      then have "2 powr of_int e \<le> y" "y < 2 powr of_int (e + 1)" using p23 p24 by simp_all
      with e have "ulp32 y = 2 powr of_int (e - 23)" by (rule ulp32_normal)
      then show ?thesis by (auto simp: y_def u_def)
    next
      case 3
      then have yy: "y = u * 2 ^ 24" by (simp add: y_def)
      then have b: "2 powr of_int (e + 1) \<le> y" "y < 2 powr of_int (e + 1 + 1)"
        using p24 p25 u by simp_all
      from e have "- 126 \<le> e + 1" by simp
      then have "ulp32 y = 2 powr of_int (e + 1 - 23)" using b by (rule ulp32_normal)
      also have "\<dots> = u * 2" using powr_shift' [of "e + 1 - 23" "e - 23" 1] by (simp add: u_def)
      finally have "y = of_int (2 ^ 23) * ulp32 y" by (simp add: yy)
      then show ?thesis by blast
    qed
  qed
  then obtain m where m: "y = of_int m * ulp32 y" ..
  have sy: "s * y \<noteq> 0" using s y by auto
  have a: "\<bar>s * y\<bar> = y" using s y by (simp add: abs_mult)
  have ul: "ulp32 (s * y) = ulp32 y" using s by (rule ulp32_abs)
  have q: "y / ulp32 y = of_int m"
    using m ulp32_pos [of y] by (metis nonzero_mult_div_cancel_right less_irrefl)
  have sgn: "sgn (s * y) = s" using s y by (auto simp: sgn_mult abs_if split: if_splits)
  have fin': "\<not> 2 ^ 128 \<le> y" using fin by (simp add: y_def u_def)
  have "round32 (s * y) = (if 2 ^ 128 \<le> of_int m * ulp32 y then inf_of_sign (s * y)
      else Fin (s * (of_int m * ulp32 y)))"
    unfolding round32_def Let_def a ul q round_even_int sgn using sy by simp
  also have "of_int m * ulp32 y = y" using m by simp
  finally have "round32 (s * y) = Fin (s * y)" using fin' by simp
  then show ?thesis by (simp add: y_def u_def)
qed


lemma round32_significand:
  assumes x: "x \<noteq> 0"
  shows "\<exists>e n. significand e n \<and> ulp32 x = 2 powr of_int (e - 23)
      \<and> round_even (\<bar>x\<bar> / ulp32 x) = n"
proof -
  define a where "a = \<bar>x\<bar>"
  define l where "l = \<lfloor>log 2 a\<rfloor>"
  define e where "e = max l (- 126)"
  define u :: real where "u = 2 powr of_int (e - 23)"
  define n where "n = round_even (a / u)"
  have a: "0 < a" using x by (simp add: a_def)
  have u: "0 < u" by (simp add: u_def)
  have ul: "ulp32 x = u" by (simp add: ulp32_def u_def e_def l_def a_def)
  from a have lo: "2 powr of_int l \<le> a" and hi: "a < 2 powr of_int (l + 1)"
    using floor_log_eq_powr_iff [of a 2 l] by (simp_all add: l_def)
  have p23: "2 powr of_int e = u * 2 ^ 23"
    using powr_shift' [of e "e - 23" 23] by (simp add: u_def)
  have p24: "2 powr of_int (e + 1) = u * 2 ^ 24"
    using powr_shift' [of "e + 1" "e - 23" 24] by (simp add: u_def)
  have "l + 1 \<le> e + 1" by (simp add: e_def)
  then have "(2::real) powr of_int (l + 1) \<le> 2 powr of_int (e + 1)"
    by (simp only: powr_le_cancel_iff of_int_le_iff)
  with hi have "a < u * 2 ^ 24" using p24 by linarith
  with u have "a / u < 2 ^ 24" by (simp add: divide_less_eq mult.commute)
  then have "a / u \<le> of_int (2 ^ 24)" by simp
  then have n24: "n \<le> 2 ^ 24" unfolding n_def by (rule round_even_le)
  have "of_int 0 \<le> a / u" using a u by simp
  then have n0: "0 \<le> n" unfolding n_def by (rule round_even_ge)
  have nrm: "2 ^ 23 \<le> n" if "- 126 < e"
  proof -
    from that have "e = l" by (simp add: e_def max_def split: if_splits)
    with lo p23 have "u * 2 ^ 23 \<le> a" by simp
    with u have "2 ^ 23 \<le> a / u" by (simp add: le_divide_eq mult.commute)
    then have "of_int (2 ^ 23) \<le> a / u" by simp
    then show ?thesis unfolding n_def by (rule round_even_ge)
  qed
  have sg: "significand e n" using n0 n24 nrm by (simp add: significand_def e_def)
  have rn: "round_even (\<bar>x\<bar> / ulp32 x) = n" by (simp add: n_def a_def ul)
  from sg ul [unfolded u_def] rn show ?thesis by blast
qed

lemma round32_0: "round32 0 = Fin 0"
  by (simp add: round32_def)

lemma round32_not_nan: "round32 x \<noteq> NaN"
  by (simp add: round32_def Let_def inf_of_sign_def)

lemma round32_minus: "round32 (- x) = fl_neg (round32 x)"
proof -
  have "ulp32 (- x) = ulp32 x" by (simp add: ulp32_def)
  then show ?thesis
    by (simp add: round32_def Let_def inf_of_sign_def sgn_minus)
qed

lemma round32_idem:
  assumes "round32 x = Fin y"
  shows "round32 y = Fin y"
proof (cases "x = 0")
  case True
  with assms show ?thesis by (simp add: round32_def)
next
  case False
  from round32_significand [OF False] obtain e n where sg: "significand e n"
    and ul: "ulp32 x = 2 powr of_int (e - 23)" and n: "round_even (\<bar>x\<bar> / ulp32 x) = n"
    by blast
  from assms False have "round32 x = (if (2::real) ^ 128 \<le> of_int n * 2 powr of_int (e - 23)
      then inf_of_sign x else Fin (sgn x * (of_int n * 2 powr of_int (e - 23))))"
    unfolding round32_def Let_def n unfolding ul by simp
  with assms False have fin: "of_int n * 2 powr of_int (e - 23) < (2::real) ^ 128"
    and y: "y = sgn x * (of_int n * 2 powr of_int (e - 23))"
    by (simp_all add: inf_of_sign_def split: if_splits)
  from False have "\<bar>sgn x\<bar> = 1" by (simp add: abs_sgn_eq)
  with sg show ?thesis unfolding y using fin by (rule round32_grid)
qed

lemma round32_1: "round32 1 = Fin 1"
proof -
  have "significand 0 (2 ^ 23)" by (simp add: significand_def)
  moreover have "\<bar>1::real\<bar> = 1" by simp
  moreover have v: "of_int (2 ^ 23) * 2 powr of_int (0 - 23) = (1::real)"
    by (simp add: powr_minus)
  then have "of_int (2 ^ 23) * 2 powr of_int (0 - 23) < (2::real) ^ 128" by simp
  ultimately have "round32 (1 * (of_int (2 ^ 23) * 2 powr of_int (0 - 23)))
      = Fin (1 * (of_int (2 ^ 23) * 2 powr of_int (0 - 23)))" by (rule round32_grid)
  then show ?thesis by (simp only: v mult_1)
qed

lemma round32_2: "round32 2 = Fin 2"
proof -
  have "significand 1 (2 ^ 23)" by (simp add: significand_def)
  moreover have "\<bar>1::real\<bar> = 1" by simp
  moreover have v: "of_int (2 ^ 23) * 2 powr of_int (1 - 23) = (2::real)"
    by (simp add: powr_minus)
  then have "of_int (2 ^ 23) * 2 powr of_int (1 - 23) < (2::real) ^ 128" by simp
  ultimately have "round32 (1 * (of_int (2 ^ 23) * 2 powr of_int (1 - 23)))
      = Fin (1 * (of_int (2 ^ 23) * 2 powr of_int (1 - 23)))" by (rule round32_grid)
  then show ?thesis by (simp only: v mult_1)
qed

lemma round32_big: "round32 (2 ^ 127) = Fin (2 ^ 127)"
proof -
  have "significand 127 (2 ^ 23)" by (simp add: significand_def)
  moreover have "\<bar>1::real\<bar> = 1" by simp
  moreover have v: "of_int (2 ^ 23) * 2 powr of_int (127 - 23) = (2::real) ^ 127"
    by simp
  then have "of_int (2 ^ 23) * 2 powr of_int (127 - 23) < (2::real) ^ 128" by simp
  ultimately have "round32 (1 * (of_int (2 ^ 23) * 2 powr of_int (127 - 23)))
      = Fin (1 * (of_int (2 ^ 23) * 2 powr of_int (127 - 23)))" by (rule round32_grid)
  then show ?thesis by (simp only: v mult_1)
qed

lemma round32_overflow: "round32 (2 ^ 127 + 2 ^ 127) = PInf"
proof -
  define x :: real where "x = 2 ^ 128"
  have x: "x = 2 powr of_int 128" by (simp add: x_def)
  have "2 powr of_int 128 \<le> x" "x < 2 powr of_int (128 + 1)" by (simp_all add: x_def)
  with _ have "ulp32 x = 2 powr of_int (128 - 23)" by (rule ulp32_normal) simp
  then have ul: "ulp32 x = 2 ^ 105" by simp
  have q: "\<bar>x\<bar> / 2 ^ 105 = of_int (2 ^ 23)" by (simp add: x_def)
  have "round32 x = PInf"
    unfolding round32_def Let_def ul q round_even_int by (simp add: x_def inf_of_sign_def)
  then show ?thesis by (simp add: x_def)
qed

lemma round_even_near: "\<bar>r - of_int n\<bar> < 1 / 2 \<Longrightarrow> round_even r = n"
proof -
  assume a: "\<bar>r - of_int n\<bar> < 1 / 2"
  show ?thesis
  proof (cases "of_int n \<le> r")
    case True
    with a have "\<lfloor>r\<rfloor> = n" by (intro floor_unique) (simp_all add: abs_if split: if_splits)
    with a True show ?thesis by (simp add: round_even_def Let_def abs_if split: if_splits)
  next
    case False
    with a have "\<lfloor>r\<rfloor> = n - 1" by (intro floor_unique) (simp_all add: abs_if split: if_splits)
    with a False show ?thesis by (simp add: round_even_def Let_def abs_if split: if_splits)
  qed
qed

text \<open>
  Rounding inside a binade: a positive \<open>x\<close> with exponent \<open>e\<close> whose quotient by the
  unit lies between the integers \<open>a\<close> and \<open>b\<close> is rounded to \<open>m\<close> units for some \<open>m\<close>
  between them.
\<close>

lemma round32_between:
  assumes e: "- 126 \<le> e" and lo: "2 powr of_int e \<le> x" and hi: "x < 2 powr of_int (e + 1)"
    and a: "of_int a \<le> x / 2 powr of_int (e - 23)" and b: "x / 2 powr of_int (e - 23) \<le> of_int b"
    and fin: "of_int b * 2 powr of_int (e - 23) < (2::real) ^ 128"
  shows "\<exists>m. a \<le> m \<and> m \<le> b \<and> round32 x = Fin (of_int m * 2 powr of_int (e - 23))"
proof -
  define u :: real where "u = 2 powr of_int (e - 23)"
  define m where "m = round_even (x / u)"
  have u: "0 < u" by (simp add: u_def)
  have "0 < (2::real) powr of_int e" by simp
  with lo have x: "0 < x" by linarith
  have ul: "ulp32 x = u" unfolding u_def using e lo hi by (rule ulp32_normal)
  from a have am: "a \<le> m" unfolding m_def u_def by (rule round_even_ge)
  from b have mb: "m \<le> b" unfolding m_def u_def by (rule round_even_le)
  from mb have "(of_int m :: real) \<le> of_int b" by simp
  with u have "of_int m * u \<le> of_int b * u" by simp
  moreover from fin have "of_int b * u < (2::real) ^ 128" by (simp only: u_def)
  ultimately have nf: "\<not> (2::real) ^ 128 \<le> of_int m * u" by linarith
  have "round32 x = Fin (of_int m * u)"
    unfolding round32_def Let_def ul using x nf by (simp add: m_def)
  with am mb show ?thesis unfolding u_def by blast
qed

lemma round32_near:
  assumes e: "- 126 \<le> e" and lo: "2 powr of_int e \<le> x" and hi: "x < 2 powr of_int (e + 1)"
    and near: "\<bar>x / 2 powr of_int (e - 23) - of_int n\<bar> < 1 / 2"
    and fin: "of_int n * 2 powr of_int (e - 23) < (2::real) ^ 128"
  shows "round32 x = Fin (of_int n * 2 powr of_int (e - 23))"
proof -
  define u :: real where "u = 2 powr of_int (e - 23)"
  have "0 < (2::real) powr of_int e" by simp
  with lo have x: "0 < x" by linarith
  have ul: "ulp32 x = u" unfolding u_def using e lo hi by (rule ulp32_normal)
  from near have r: "round_even (x / u) = n" unfolding u_def by (rule round_even_near)
  from fin have nf: "\<not> (2::real) ^ 128 \<le> of_int n * u" by (simp add: u_def)
  have "round32 x = Fin (of_int n * u)"
    unfolding round32_def Let_def ul using x nf by (simp add: r)
  then show ?thesis by (simp add: u_def)
qed


lemma round32_succ_1: "round32 (1 + 1 / 2 ^ 23) = Fin (1 + 1 / 2 ^ 23)"
proof -
  have "significand 0 (2 ^ 23 + 1)" by (simp add: significand_def)
  moreover have "\<bar>1::real\<bar> = 1" by simp
  moreover have v: "of_int (2 ^ 23 + 1) * 2 powr of_int (0 - 23) = (1 + 1 / 2 ^ 23 :: real)"
    by (simp add: powr_minus field_simps)
  then have "of_int (2 ^ 23 + 1) * 2 powr of_int (0 - 23) < (2::real) ^ 128" by simp
  ultimately have "round32 (1 * (of_int (2 ^ 23 + 1) * 2 powr of_int (0 - 23)))
      = Fin (1 * (of_int (2 ^ 23 + 1) * 2 powr of_int (0 - 23)))" by (rule round32_grid)
  then show ?thesis by (simp only: v mult_1)
qed

lemma round32_ratio: "round32 (1 / (1 + 1 / 2 ^ 23)) = Fin (1 - 1 / 2 ^ 23)"
proof -
  define x :: real where "x = 1 / (1 + 1 / 2 ^ 23)"
  have u: "(2::real) powr of_int (- 1 - 23) = 1 / 2 ^ 24" by (simp add: powr_minus field_simps)
  have "- 126 \<le> (- 1 :: int)" by simp
  moreover have "2 powr of_int (- 1) \<le> x" by (simp add: x_def powr_minus field_simps)
  moreover have "x < 2 powr of_int (- 1 + 1)" by (simp add: x_def)
  moreover have "\<bar>x / 2 powr of_int (- 1 - 23) - of_int (2 ^ 24 - 2)\<bar> < 1 / 2"
    unfolding u by (simp add: x_def field_simps abs_if)
  moreover have "of_int (2 ^ 24 - 2) * 2 powr of_int (- 1 - 23) < (2::real) ^ 128"
    unfolding u by simp
  ultimately have "round32 x = Fin (of_int (2 ^ 24 - 2) * 2 powr of_int (- 1 - 23))"
    by (rule round32_near)
  also have "of_int (2 ^ 24 - 2) * 2 powr of_int (- 1 - 23) = (1 - 1 / 2 ^ 23 :: real)"
    unfolding u by simp
  finally show ?thesis by (simp only: x_def)
qed

text \<open>
  The logarithm of the number just below one, rounded: \<open>-t\<close> for a \<open>t\<close> between
  \<open>1 / 2 ^ 23\<close> and \<open>1 / 2 ^ 23 + 1 / 2 ^ 45\<close>.
\<close>

lemma round32_log_pred_1:
  "\<exists>t. round32 (ln (1 - 1 / 2 ^ 23)) = Fin (- t) \<and> 1 / 2 ^ 23 \<le> t \<and> t \<le> 1 / 2 ^ 23 + 1 / 2 ^ 45"
proof -
  define y :: real where "y = 1 - 1 / 2 ^ 23"
  define L where "L = - ln y"
  have y: "0 < y" "y < 1" by (simp_all add: y_def)
  have "ln y \<le> y - 1" using y(1) by (rule ln_le_minus_one)
  then have lo: "1 / 2 ^ 23 \<le> L" by (simp add: L_def y_def)
  have "ln (1 / y) \<le> 1 / y - 1" using y(1) by (intro ln_le_minus_one) simp
  then have "L \<le> 1 / y - 1" using y(1) by (simp add: L_def ln_div)
  also have "1 / y - 1 \<le> (2 ^ 23 + 2) / 2 ^ 46" by (simp add: y_def field_simps)
  finally have hi: "L \<le> (2 ^ 23 + 2) / 2 ^ 46" .
  have u: "(2::real) powr of_int (- 23 - 23) = 1 / 2 ^ 46" by (simp add: powr_minus field_simps)
  have "- 126 \<le> (- 23 :: int)" by simp
  moreover have "2 powr of_int (- 23) \<le> L" using lo by (simp add: powr_minus field_simps)
  moreover have "L < 2 powr of_int (- 23 + 1)" using hi by (simp add: powr_minus field_simps)
  moreover have "of_int (2 ^ 23) \<le> L / 2 powr of_int (- 23 - 23)"
    unfolding u using lo by (simp add: field_simps)
  moreover have "L / 2 powr of_int (- 23 - 23) \<le> of_int (2 ^ 23 + 2)"
    unfolding u using hi by (simp add: field_simps)
  moreover have "of_int (2 ^ 23 + 2) * 2 powr of_int (- 23 - 23) < (2::real) ^ 128"
    unfolding u by simp
  ultimately obtain m where m: "2 ^ 23 \<le> m" "m \<le> 2 ^ 23 + 2"
    and r: "round32 L = Fin (of_int m * 2 powr of_int (- 23 - 23))"
    using round32_between by blast
  define t :: real where "t = of_int m / 2 ^ 46"
  from m have "(2::real) ^ 23 \<le> of_int m" "of_int m \<le> (2::real) ^ 23 + 2"
    by (metis of_int_le_iff of_int_numeral of_int_power,
        metis of_int_le_iff of_int_numeral of_int_power of_int_add)
  then have "1 / 2 ^ 23 \<le> t" "t \<le> 1 / 2 ^ 23 + 1 / 2 ^ 45"
    by (simp_all add: t_def field_simps)
  moreover have "round32 (ln y) = Fin (- t)"
    using r round32_minus [of L] unfolding u by (simp add: L_def t_def)
  ultimately show ?thesis unfolding y_def by blast
qed

lemma round32_back:
  assumes "1 / 2 ^ 23 \<le> t" and "t \<le> 1 / 2 ^ 23 + 1 / 2 ^ 45"
  shows "round32 (1 + t) = Fin (1 + 1 / 2 ^ 23)"
proof -
  have u: "(2::real) powr of_int (0 - 23) = 1 / 2 ^ 23" by (simp add: powr_minus field_simps)
  have "- 126 \<le> (0 :: int)" by simp
  moreover have "2 powr of_int 0 \<le> 1 + t" using assms by simp
  moreover have "1 + t < 2 powr of_int (0 + 1)" using assms by simp
  moreover have "\<bar>(1 + t) / 2 powr of_int (0 - 23) - of_int (2 ^ 23 + 1)\<bar> < 1 / 2"
    unfolding u using assms by (simp add: field_simps abs_if)
  moreover have "of_int (2 ^ 23 + 1) * 2 powr of_int (0 - 23) < (2::real) ^ 128"
    unfolding u by simp
  ultimately have "round32 (1 + t) = Fin (of_int (2 ^ 23 + 1) * 2 powr of_int (0 - 23))"
    by (rule round32_near)
  also have "of_int (2 ^ 23 + 1) * 2 powr of_int (0 - 23) = (1 + 1 / 2 ^ 23 :: real)"
    unfolding u by (simp add: field_simps)
  finally show ?thesis .
qed

text \<open>
  The roundings met when the divergence of \<open>p = [17 / 4]\<close> from \<open>q = [17 / 4 - 1 / 2 ^ 14]\<close>
  is computed: the ratio rounds to \<open>1 + 15 / 2 ^ 20\<close>, and its logarithm lies between
  \<open>x - x\<^sup>2\<close> and \<open>x - 1 / 2 ^ 40\<close> for \<open>x = 15 / 2 ^ 20\<close>.
\<close>

lemma ln_upper:
  "ln (1 + 15 / 2 ^ 20) \<le> (15 / 2 ^ 20 - 1 / 2 ^ 40 :: real)"
proof -
  define y :: real where "y = 15 / 2 ^ 20 - 1 / 2 ^ 40"
  have y: "0 \<le> y" by (simp add: y_def)
  then have "1 + y + y\<^sup>2 / 2 \<le> exp y" by (rule exp_lower_Taylor_quadratic)
  moreover have "1 + 15 / 2 ^ 20 \<le> 1 + y + y\<^sup>2 / 2"
    by (simp add: y_def power2_eq_square field_simps)
  ultimately have "1 + 15 / 2 ^ 20 \<le> exp y" by linarith
  then have "ln (1 + 15 / 2 ^ 20) \<le> ln (exp y)"
    by (subst ln_le_cancel_iff) simp_all
  then show ?thesis by (simp add: y_def)
qed

lemma ln_lower:
  "(15 / 2 ^ 20 - 225 / 2 ^ 40 :: real) \<le> ln (1 + 15 / 2 ^ 20)"
proof -
  have "(15 / 2 ^ 20 :: real) - (15 / 2 ^ 20)\<^sup>2 \<le> ln (1 + 15 / 2 ^ 20)"
    by (rule ln_one_plus_pos_lower_bound) simp_all
  then show ?thesis by (simp add: power2_eq_square)
qed

lemma round32_p: "round32 (17 / 4) = Fin (17 / 4)"
proof -
  have "significand 2 8912896" by (simp add: significand_def)
  moreover have "\<bar>1::real\<bar> = 1" by simp
  moreover have v: "of_int 8912896 * 2 powr of_int (2 - 23) = (17 / 4 :: real)"
    by (simp add: powr_minus field_simps)
  then have "of_int 8912896 * 2 powr of_int (2 - 23) < (2::real) ^ 128" by simp
  ultimately have "round32 (1 * (of_int 8912896 * 2 powr of_int (2 - 23)))
      = Fin (1 * (of_int 8912896 * 2 powr of_int (2 - 23)))" by (rule round32_grid)
  then show ?thesis by (simp only: v mult_1)
qed

lemma round32_q: "round32 (17 / 4 - 1 / 2 ^ 14) = Fin (17 / 4 - 1 / 2 ^ 14)"
proof -
  have "significand 2 8912768" by (simp add: significand_def)
  moreover have "\<bar>1::real\<bar> = 1" by simp
  moreover have v: "of_int 8912768 * 2 powr of_int (2 - 23) = (17 / 4 - 1 / 2 ^ 14 :: real)"
    by (simp add: powr_minus field_simps)
  then have "of_int 8912768 * 2 powr of_int (2 - 23) < (2::real) ^ 128" by simp
  ultimately have "round32 (1 * (of_int 8912768 * 2 powr of_int (2 - 23)))
      = Fin (1 * (of_int 8912768 * 2 powr of_int (2 - 23)))" by (rule round32_grid)
  then show ?thesis by (simp only: v mult_1)
qed

lemma round32_ulp21: "round32 (1 / 2 ^ 21) = Fin (1 / 2 ^ 21)"
proof -
  have "significand (- 21) (2 ^ 23)" by (simp add: significand_def)
  moreover have "\<bar>1::real\<bar> = 1" by simp
  moreover have v: "of_int (2 ^ 23) * 2 powr of_int (- 21 - 23) = (1 / 2 ^ 21 :: real)"
    by (simp add: powr_minus field_simps)
  then have "of_int (2 ^ 23) * 2 powr of_int (- 21 - 23) < (2::real) ^ 128" by simp
  ultimately have "round32 (1 * (of_int (2 ^ 23) * 2 powr of_int (- 21 - 23)))
      = Fin (1 * (of_int (2 ^ 23) * 2 powr of_int (- 21 - 23)))" by (rule round32_grid)
  then show ?thesis by (simp only: v mult_1)
qed

lemma round32_ratio2: "round32 ((17 / 4) / (17 / 4 - 1 / 2 ^ 14)) = Fin (1 + 15 / 2 ^ 20)"
proof -
  define x :: real where "x = (17 / 4) / (17 / 4 - 1 / 2 ^ 14)"
  have u: "(2::real) powr of_int (0 - 23) = 1 / 2 ^ 23" by (simp add: powr_minus field_simps)
  have "- 126 \<le> (0 :: int)" by simp
  moreover have "2 powr of_int 0 \<le> x" by (simp add: x_def field_simps)
  moreover have "x < 2 powr of_int (0 + 1)" by (simp add: x_def field_simps)
  moreover have "\<bar>x / 2 powr of_int (0 - 23) - of_int (2 ^ 23 + 120)\<bar> < 1 / 2"
    unfolding u by (simp add: x_def field_simps abs_if)
  moreover have "of_int (2 ^ 23 + 120) * 2 powr of_int (0 - 23) < (2::real) ^ 128"
    unfolding u by simp
  ultimately have "round32 x = Fin (of_int (2 ^ 23 + 120) * 2 powr of_int (0 - 23))"
    by (rule round32_near)
  also have "of_int (2 ^ 23 + 120) * 2 powr of_int (0 - 23) = (1 + 15 / 2 ^ 20 :: real)"
    unfolding u by (simp add: field_simps)
  finally show ?thesis by (simp only: x_def)
qed

text \<open>The logarithm of the ratio, rounded: \<open>m\<close> units of \<open>1 / 2 ^ 40\<close>.\<close>

lemma round32_log_ratio2:
  "\<exists>m. round32 (ln (1 + 15 / 2 ^ 20)) = Fin (of_int m / 2 ^ 40) \<and> 15728415 \<le> m \<and> m \<le> 15728639"
proof -
  define L :: real where "L = ln (1 + 15 / 2 ^ 20)"
  have lo: "15 / 2 ^ 20 - 225 / 2 ^ 40 \<le> L" unfolding L_def by (rule ln_lower)
  have hi: "L \<le> 15 / 2 ^ 20 - 1 / 2 ^ 40" unfolding L_def by (rule ln_upper)
  have u: "(2::real) powr of_int (- 17 - 23) = 1 / 2 ^ 40" by (simp add: powr_minus field_simps)
  have "- 126 \<le> (- 17 :: int)" by simp
  moreover have "2 powr of_int (- 17) \<le> L" using lo by (simp add: powr_minus field_simps)
  moreover have "L < 2 powr of_int (- 17 + 1)" using hi by (simp add: powr_minus field_simps)
  moreover have "of_int 15728415 \<le> L / 2 powr of_int (- 17 - 23)"
    unfolding u using lo by (simp add: field_simps)
  moreover have "L / 2 powr of_int (- 17 - 23) \<le> of_int 15728639"
    unfolding u using hi by (simp add: field_simps)
  moreover have "of_int 15728639 * 2 powr of_int (- 17 - 23) < (2::real) ^ 128"
    unfolding u by simp
  ultimately obtain m where m: "15728415 \<le> m" "m \<le> 15728639"
    and r: "round32 L = Fin (of_int m * 2 powr of_int (- 17 - 23))"
    using round32_between by blast
  from r have "round32 L = Fin (of_int m / 2 ^ 40)" unfolding u by simp
  with m show ?thesis unfolding L_def by blast
qed

text \<open>The term \<open>p * log (p / q)\<close>, rounded: \<open>k\<close> units of \<open>1 / 2 ^ 38\<close>.\<close>

lemma round32_term2:
  assumes m: "15728415 \<le> m" "m \<le> 15728639"
  shows "\<exists>k. round32 (17 / 4 * (of_int m / 2 ^ 40)) = Fin (of_int k / 2 ^ 38)
    \<and> 16711440 \<le> k \<and> k \<le> 16711679"
proof -
  define x :: real where "x = 17 / 4 * (of_int m / 2 ^ 40)"
  from m have mr: "(15728415 :: real) \<le> of_int m" "of_int m \<le> (15728639 :: real)"
    by linarith+
  have u: "(2::real) powr of_int (- 15 - 23) = 1 / 2 ^ 38" by (simp add: powr_minus field_simps)
  have "- 126 \<le> (- 15 :: int)" by simp
  moreover have "2 powr of_int (- 15) \<le> x" using mr by (simp add: x_def powr_minus field_simps)
  moreover have "x < 2 powr of_int (- 15 + 1)" using mr by (simp add: x_def powr_minus field_simps)
  moreover have "of_int 16711440 \<le> x / 2 powr of_int (- 15 - 23)"
    unfolding u using mr by (simp add: x_def field_simps)
  moreover have "x / 2 powr of_int (- 15 - 23) \<le> of_int 16711679"
    unfolding u using mr by (simp add: x_def field_simps)
  moreover have "of_int 16711679 * 2 powr of_int (- 15 - 23) < (2::real) ^ 128"
    unfolding u by simp
  ultimately obtain k where k: "16711440 \<le> k" "k \<le> 16711679"
    and r: "round32 x = Fin (of_int k * 2 powr of_int (- 15 - 23))"
    using round32_between by blast
  from r have "round32 x = Fin (of_int k / 2 ^ 38)" unfolding u by simp
  with k show ?thesis unfolding x_def by blast
qed

text \<open>The term minus the mass of \<open>p\<close>, rounded: one unit short of \<open>-q\<close>.\<close>

lemma round32_diff2:
  assumes k: "16711440 \<le> k" "k \<le> 16711679"
  shows "round32 (17 / 4 - of_int k / 2 ^ 38) = Fin (17 / 4 - 127 / 2 ^ 21)"
proof -
  define x :: real where "x = 17 / 4 - of_int k / 2 ^ 38"
  from k have kr: "(16711440 :: real) \<le> of_int k" "of_int k \<le> (16711679 :: real)"
    by linarith+
  have u: "(2::real) powr of_int (2 - 23) = 1 / 2 ^ 21" by (simp add: powr_minus field_simps)
  have "- 126 \<le> (2 :: int)" by simp
  moreover have "2 powr of_int 2 \<le> x" using kr by (simp add: x_def field_simps)
  moreover have "x < 2 powr of_int (2 + 1)" using kr by (simp add: x_def field_simps)
  moreover have "\<bar>x / 2 powr of_int (2 - 23) - of_int 8912769\<bar> < 1 / 2"
    unfolding u using kr by (simp add: x_def field_simps abs_if)
  moreover have "of_int 8912769 * 2 powr of_int (2 - 23) < (2::real) ^ 128"
    unfolding u by simp
  ultimately have "round32 x = Fin (of_int 8912769 * 2 powr of_int (2 - 23))"
    by (rule round32_near)
  also have "of_int 8912769 * 2 powr of_int (2 - 23) = (17 / 4 - 127 / 2 ^ 21 :: real)"
    unfolding u by (simp add: field_simps)
  finally show ?thesis by (simp only: x_def)
qed

section \<open>The generalized Kullback-Leibler divergence\<close>

lemma round_to_simps [simp]:
  "round_to A (Fin a) = rnd A a" "round_to A PInf = PInf" "round_to A NInf = NInf"
  "round_to A NaN = NaN"
  by (simp_all add: round_to_def)

lemma binary32_sel: "rnd binary32 = round32" "lg binary32 = (\<lambda>x. round32 (ln x))"
  by (simp_all add: binary32_def)

lemma ieee_binary32: "ieee binary32"
  unfolding ieee_def binary32_sel
  by (simp add: round32_0 round32_1 round32_not_nan round32_minus) (blast intro: round32_idem)

lemma nan_to_num_fin: "nan_to_num (Fin 0) (Fin 0) (Fin 0) x = (if is_fin x then x else Fin 0)"
  by (cases x) simp_all

lemma kl_term_code:
  assumes "ieee A"
  shows "nan_to_num (Fin 0) (Fin 0) (Fin 0) (r_mul A a (r_log A (r_div A a b))) = kl_term A a b"
proof -
  from assms have z: "rnd A 0 = Fin 0" by (simp add: ieee_def)
  show ?thesis
  proof (cases "a = Fin 0")
    case True
    then show ?thesis
      by (cases b) (simp_all add: kl_term_def r_div_def r_mul_def inf_of_sign_def z)
  next
    case a: False
    show ?thesis
    proof (cases "b = Fin 0")
      case True
      with a show ?thesis
        by (cases a) (simp_all add: kl_term_def r_div_def r_mul_def inf_of_sign_def)
    next
      case False
      with a show ?thesis by (simp add: kl_term_def nan_to_num_fin Let_def)
    qed
  qed
qed

lemma kl_terms_code:
  assumes "ieee A"
  shows "map (nan_to_num (Fin 0) (Fin 0) (Fin 0))
           (map2 (\<lambda>a b. r_mul A a (r_log A (r_div A a b))) p q) = map2 (kl_term A) p q"
  by (simp add: kl_term_code [OF assms] split_def)

lemma kl_term_fin: "is_fin (kl_term A a b)"
  by (simp add: kl_term_def Let_def)

lemma kl_term_spec:
  assumes "ieee A" and "is_fin (spec_term A a b)"
  shows "kl_term A a b = spec_term A a b"
proof (cases "a = Fin 0")
  case True
  then show ?thesis by (simp add: kl_term_def spec_term_def)
next
  case a: False
  with assms(2) have f: "is_fin (r_mul A a (r_log A (r_div A a b)))" by (simp add: spec_term_def)
  have "b \<noteq> Fin 0"
  proof
    assume "b = Fin 0"
    with a f show False
      by (cases a) (simp_all add: r_div_def r_mul_def inf_of_sign_def split: if_splits)
  qed
  with a f show ?thesis by (simp add: kl_term_def spec_term_def Let_def)
qed

lemma kl_term_self:
  assumes "ieee A"
  shows "kl_term A a a = Fin 0"
proof -
  from assms have z: "rnd A 0 = Fin 0" "rnd A 1 = Fin 1" "lg A 1 = Fin 0" by (simp_all add: ieee_def)
  show ?thesis
    by (cases a) (simp_all add: kl_term_def r_div_def r_mul_def z Let_def)
qed

lemma r_sum_snoc: "r_sum A (xs @ [x]) = r_add A (r_sum A xs) x"
  by (simp add: r_sum_def)

lemma r_sum_zeros:
  assumes "ieee A" and "\<forall>x\<in>set xs. x = Fin 0"
  shows "r_sum A xs = Fin 0"
  using assms(2)
proof (induction xs rule: rev_induct)
  case Nil
  then show ?case by (simp add: r_sum_def)
next
  case (snoc x xs)
  with assms(1) show ?case by (simp add: r_sum_snoc r_add_def ieee_def)
qed

text \<open>A finite sum is a number of the format.\<close>

lemma r_sum_entry:
  assumes "ieee A" and "r_sum A xs = Fin s"
  shows "rnd A s = Fin s"
  using assms(2)
proof (cases xs rule: rev_cases)
  case Nil
  with assms show ?thesis by (simp add: r_sum_def ieee_def)
next
  case (snoc ys y)
  with assms(2) have "round_to A (fl_add (r_sum A ys) y) = Fin s"
    by (simp add: r_sum_snoc r_add_def)
  then obtain t where "rnd A t = Fin s"
    by (cases "fl_add (r_sum A ys) y") simp_all
  with assms(1) show ?thesis unfolding ieee_def by blast
qed

lemma r_sum_not_nan:
  assumes "ieee A" and "\<forall>x\<in>set xs. is_fin x"
  shows "r_sum A xs \<noteq> NaN"
  using assms(2)
proof (induction xs rule: rev_induct)
  case Nil
  then show ?case by (simp add: r_sum_def)
next
  case (snoc x xs)
  then have ih: "r_sum A xs \<noteq> NaN" and x: "is_fin x" by simp_all
  from x obtain a where a: "x = Fin a" by (cases x) simp_all
  from assms(1) have nn: "\<And>y. rnd A y \<noteq> NaN" by (simp add: ieee_def)
  show ?case using ih nn by (cases "r_sum A xs") (simp_all add: r_sum_snoc r_add_def a)
qed

lemma compute_kl_terms:
  assumes "ieee A"
  shows "compute_kl A p q
    = r_add A (r_sub A (r_sum A (map2 (kl_term A) p q)) (r_sum A p)) (r_sum A q)"
  by (simp only: compute_kl_def compute_approx_kl_def kl_terms_code [OF assms])


lemma r_sum_big: "r_sum binary32 [Fin (2 ^ 127), Fin (2 ^ 127)] = PInf"
proof -
  have "round32 (2 * 2 ^ 127) = PInf" by (simp only: mult_2 round32_overflow)
  then show ?thesis
    by (simp add: r_sum_def r_add_def binary32_sel round32_big del: power_numeral)
qed

lemma tail_self:
  assumes "ieee A" and "rnd A s = Fin s"
  shows "r_add A (r_sub A (Fin 0) (Fin s)) (Fin s) = Fin 0"
proof -
  from assms(1) have m: "rnd A (- s) = fl_neg (rnd A s)" and z: "rnd A 0 = Fin 0"
    by (simp_all add: ieee_def)
  show ?thesis by (simp add: r_add_def r_sub_def fl_sub_def m assms(2) z)
qed

lemma tail_zero:
  assumes "ieee A" and "\<And>s. S = Fin s \<Longrightarrow> rnd A s = Fin s"
  shows "r_add A (r_sub A (Fin 0) S) (Fin 0) = fl_neg S"
proof -
  from assms(1) have m: "\<And>s. rnd A (- s) = fl_neg (rnd A s)" by (simp add: ieee_def)
  show ?thesis
    using assms(2) by (cases S) (simp_all add: r_add_def r_sub_def fl_sub_def m)
qed

text \<open>
  In single precision two different positive inputs can have divergence zero: for
  \<open>p = [1]\<close> and \<open>q = [1 + 1 / 2 ^ 23]\<close> the ratio rounds to \<open>1 - 1 / 2 ^ 23\<close>, the term is
  \<open>-t\<close> with \<open>t\<close> just above \<open>1 / 2 ^ 23\<close>, \<open>-t - 1\<close> rounds to \<open>-q\<close>, and \<open>-q + q\<close> is zero.
\<close>

lemma compute_kl_rounds_to_zero:
  "compute_kl binary32 [Fin 1] [Fin (1 + 1 / 2 ^ 23)] = Fin 0"
proof -
  define q0 :: real where "q0 = 1 + 1 / 2 ^ 23"
  define r0 :: real where "r0 = 1 - 1 / 2 ^ 23"
  obtain t where l: "round32 (ln r0) = Fin (- t)"
    and t: "1 / 2 ^ 23 \<le> t" "t \<le> 1 / 2 ^ 23 + 1 / 2 ^ 45"
    using round32_log_pred_1 unfolding r0_def by blast
  from l have i: "round32 (- t) = Fin (- t)" by (rule round32_idem)
  have r0: "\<not> r0 < 0" "r0 \<noteq> 0" and q0: "q0 \<noteq> 0" by (simp_all add: r0_def q0_def)
  have "round32 (1 / q0) = Fin r0" unfolding q0_def r0_def by (rule round32_ratio)
  then have d: "r_div binary32 (Fin 1) (Fin q0) = Fin r0"
    using q0 by (simp add: r_div_def binary32_sel)
  have g: "r_log binary32 (Fin r0) = Fin (- t)"
    using l r0 by (simp add: binary32_sel)
  have tm: "r_mul binary32 (Fin 1) (Fin (- t)) = Fin (- t)"
    using i by (simp add: r_mul_def binary32_sel)
  have a: "compute_approx_kl binary32 [Fin 1] [Fin q0] = Fin (- t)"
    unfolding compute_approx_kl_def
    by (simp add: d g tm r_sum_def r_add_def binary32_sel i del: r_log.simps)
  have p: "r_sum binary32 [Fin 1] = Fin 1"
    by (simp add: r_sum_def r_add_def binary32_sel round32_1)
  have "round32 q0 = Fin q0" unfolding q0_def by (rule round32_succ_1)
  then have q: "r_sum binary32 [Fin q0] = Fin q0"
    by (simp add: r_sum_def r_add_def binary32_sel)
  have "round32 (1 + t) = Fin q0" unfolding q0_def using t by (rule round32_back)
  then have "round32 (- (1 + t)) = Fin (- q0)"
    by (simp only: round32_minus fl_neg.simps)
  then have s: "r_sub binary32 (Fin (- t)) (Fin 1) = Fin (- q0)"
    by (simp add: r_sub_def fl_sub_def binary32_sel add.commute)
  have "r_add binary32 (Fin (- q0)) (Fin q0) = Fin 0"
    by (simp add: r_add_def binary32_sel round32_0)
  then have "compute_kl binary32 [Fin 1] [Fin q0] = Fin 0"
    by (simp only: compute_kl_def a p q s)
  then show ?thesis by (simp only: q0_def)
qed

text \<open>
  In single precision the divergence of two positive inputs can be negative: for
  \<open>p = [17 / 4]\<close> and \<open>q = [17 / 4 - 1 / 2 ^ 14]\<close> the term is \<open>t\<close>, just below
  \<open>255 / 2 ^ 22\<close>, so \<open>t - p\<close> rounds to \<open>- (17 / 4 - 127 / 2 ^ 21)\<close>, and adding
  \<open>q = 17 / 4 - 128 / 2 ^ 21\<close> leaves \<open>- 1 / 2 ^ 21\<close>.
\<close>

lemma compute_kl_rounds_below_zero:
  "compute_kl binary32 [Fin (17 / 4)] [Fin (17 / 4 - 1 / 2 ^ 14)] = Fin (- (1 / 2 ^ 21))"
proof -
  define p0 :: real where "p0 = 17 / 4"
  define q0 :: real where "q0 = 17 / 4 - 1 / 2 ^ 14"
  define r0 :: real where "r0 = 1 + 15 / 2 ^ 20"
  obtain m where l: "round32 (ln r0) = Fin (of_int m / 2 ^ 40)"
    and m: "15728415 \<le> m" "m \<le> 15728639"
    using round32_log_ratio2 unfolding r0_def by blast
  define l0 :: real where "l0 = of_int m / 2 ^ 40"
  obtain k where t: "round32 (p0 * l0) = Fin (of_int k / 2 ^ 38)"
    and k: "16711440 \<le> k" "k \<le> 16711679"
    using round32_term2 [OF m] unfolding p0_def l0_def by blast
  define t0 :: real where "t0 = of_int k / 2 ^ 38"
  from t have i: "round32 t0 = Fin t0" unfolding t0_def by (rule round32_idem)
  have nz: "\<not> r0 < 0" "r0 \<noteq> 0" "q0 \<noteq> 0" by (simp_all add: r0_def q0_def)
  have "round32 (p0 / q0) = Fin r0" unfolding p0_def q0_def r0_def by (rule round32_ratio2)
  then have d: "r_div binary32 (Fin p0) (Fin q0) = Fin r0"
    using nz by (simp add: r_div_def binary32_sel)
  have g: "r_log binary32 (Fin r0) = Fin l0"
    using l nz by (simp add: binary32_sel l0_def)
  have tm: "r_mul binary32 (Fin p0) (Fin l0) = Fin t0"
    using t by (simp add: r_mul_def binary32_sel t0_def)
  have a: "compute_approx_kl binary32 [Fin p0] [Fin q0] = Fin t0"
    unfolding compute_approx_kl_def
    by (simp add: d g tm r_sum_def r_add_def binary32_sel i del: r_log.simps)
  have "round32 p0 = Fin p0" unfolding p0_def by (rule round32_p)
  then have p: "r_sum binary32 [Fin p0] = Fin p0"
    by (simp add: r_sum_def r_add_def binary32_sel)
  have "round32 q0 = Fin q0" unfolding q0_def by (rule round32_q)
  then have q: "r_sum binary32 [Fin q0] = Fin q0"
    by (simp add: r_sum_def r_add_def binary32_sel)
  have "round32 (p0 - t0) = Fin (17 / 4 - 127 / 2 ^ 21)"
    unfolding p0_def t0_def using k by (rule round32_diff2)
  then have "round32 (- (p0 - t0)) = Fin (- (17 / 4 - 127 / 2 ^ 21))"
    by (simp only: round32_minus fl_neg.simps)
  then have s: "r_sub binary32 (Fin t0) (Fin p0) = Fin (- (17 / 4 - 127 / 2 ^ 21))"
    by (simp add: r_sub_def fl_sub_def binary32_sel)
  have "round32 (- (1 / 2 ^ 21)) = Fin (- (1 / 2 ^ 21))"
    by (simp only: round32_minus round32_ulp21 fl_neg.simps)
  moreover have "- (17 / 4 - 127 / 2 ^ 21) + q0 = (- (1 / 2 ^ 21) :: real)"
    by (simp add: q0_def)
  ultimately have "r_add binary32 (Fin (- (17 / 4 - 127 / 2 ^ 21))) (Fin q0) = Fin (- (1 / 2 ^ 21))"
    by (simp add: r_add_def binary32_sel del: minus_add_distrib minus_diff_eq)
  then have "compute_kl binary32 [Fin p0] [Fin q0] = Fin (- (1 / 2 ^ 21))"
    by (simp only: compute_kl_def a p q s)
  then show ?thesis by (simp only: p0_def q0_def)
qed

text \<open>
  C2, as the specification states it: for all nonnegative finite \<open>p\<close> and \<open>q\<close> of equal
  shape the divergence is nonnegative, it is zero exactly when \<open>p = q\<close>, and
  \<open>compute_kl p p\<close> is exactly zero. In single precision each part fails. At \<open>p = [1]\<close>,
  \<open>q = [0]\<close> the ratio is \<open>+inf\<close>, so is the term, \<open>nan_to_num\<close> replaces it by \<open>0\<close>, and
  the result is \<open>0 - 1 + 0 = -1\<close>. At \<open>p = [17 / 4]\<close>, \<open>q = [17 / 4 - 1 / 2 ^ 14]\<close>, both
  positive, the result is \<open>- 1 / 2 ^ 21\<close>. At \<open>p = [1]\<close>, \<open>q = [1 + 1 / 2 ^ 23]\<close> the
  inputs differ, both are positive, and the result is \<open>0\<close>. At
  \<open>p = q = [2 ^ 127, 2 ^ 127]\<close> the mass overflows to \<open>+inf\<close> and the result is
  \<open>(0 - inf) + inf\<close>, NaN.
\<close>

theorem compute_kl_negative:
  "compute_kl binary32 [Fin 1] [Fin 0] = Fin (- 1)
   \<and> compute_kl binary32 [Fin (17 / 4)] [Fin (17 / 4 - 1 / 2 ^ 14)] = Fin (- (1 / 2 ^ 21))
   \<and> compute_kl binary32 [Fin 1] [Fin (1 + 1 / 2 ^ 23)] = Fin 0
   \<and> compute_kl binary32 [Fin (2 ^ 127), Fin (2 ^ 127)] [Fin (2 ^ 127), Fin (2 ^ 127)] = NaN"
proof (intro conjI)
  have m: "round32 (- 1) = Fin (- 1)" by (simp only: round32_minus round32_1 fl_neg.simps)
  show "compute_kl binary32 [Fin 1] [Fin 0] = Fin (- 1)"
    by (simp add: compute_kl_def compute_approx_kl_def r_sum_def r_add_def r_sub_def r_mul_def
        r_div_def fl_sub_def inf_of_sign_def binary32_sel round32_0 round32_1 m)
  show "compute_kl binary32 [Fin (17 / 4)] [Fin (17 / 4 - 1 / 2 ^ 14)] = Fin (- (1 / 2 ^ 21))"
    by (rule compute_kl_rounds_below_zero)
  show "compute_kl binary32 [Fin 1] [Fin (1 + 1 / 2 ^ 23)] = Fin 0"
    by (rule compute_kl_rounds_to_zero)
  have t: "kl_term binary32 (Fin (2 ^ 127)) (Fin (2 ^ 127)) = Fin 0"
    using ieee_binary32 by (rule kl_term_self)
  show "compute_kl binary32 [Fin (2 ^ 127), Fin (2 ^ 127)] [Fin (2 ^ 127), Fin (2 ^ 127)] = NaN"
    unfolding compute_kl_terms [OF ieee_binary32] r_sum_big
    by (simp add: t r_sum_def r_add_def r_sub_def fl_sub_def binary32_sel round32_0
        del: power_numeral)
qed

text \<open>
  C2, amended: in every arithmetic that rounds as the IEEE formats do, \<open>compute_kl p p\<close>
  is exactly zero for every \<open>p\<close> whose mass \<open>p.sum()\<close> is finite, and NaN for every other
  \<open>p\<close>; and \<open>compute_kl\<close> of \<open>p\<close> against zeros is minus the mass of \<open>p\<close>, so the divergence
  is negative for every \<open>p\<close> of positive mass there. Nothing is assumed of the entries:
  the statement holds of all nonnegative finite \<open>p\<close> and beyond them.
\<close>

theorem compute_kl_self:
  assumes "ieee A"
  shows "compute_kl A p p = (if is_fin (r_sum A p) then Fin 0 else NaN)
    \<and> compute_kl A p (map (\<lambda>_. Fin 0) p) = fl_neg (r_sum A p)"
proof
  have "\<forall>x\<in>set (map2 (kl_term A) p p). x = Fin 0"
    by (auto simp: zip_same kl_term_self [OF assms])
  with assms have t: "r_sum A (map2 (kl_term A) p p) = Fin 0" by (rule r_sum_zeros)
  show "compute_kl A p p = (if is_fin (r_sum A p) then Fin 0 else NaN)"
  proof (cases "r_sum A p")
    case (Fin s)
    with assms have "rnd A s = Fin s" by (intro r_sum_entry)
    with assms have "r_add A (r_sub A (Fin 0) (Fin s)) (Fin s) = Fin 0" by (rule tail_self)
    then show ?thesis by (simp add: compute_kl_terms [OF assms] t Fin)
  qed (simp_all add: compute_kl_terms [OF assms] t r_add_def r_sub_def fl_sub_def)
next
  have "\<forall>x\<in>set (map2 (kl_term A) p (map (\<lambda>_. Fin 0) p)). x = Fin 0"
    by (auto simp: kl_term_def dest!: set_zip_rightD)
  with assms have t: "r_sum A (map2 (kl_term A) p (map (\<lambda>_. Fin 0) p)) = Fin 0"
    by (rule r_sum_zeros)
  have "\<forall>x\<in>set (map (\<lambda>_. Fin 0) p). x = Fin 0" by simp
  with assms have q: "r_sum A (map (\<lambda>_. Fin 0) p) = Fin 0" by (rule r_sum_zeros)
  have "r_add A (r_sub A (Fin 0) (r_sum A p)) (Fin 0) = fl_neg (r_sum A p)"
    using assms by (rule tail_zero) (rule r_sum_entry [OF assms])
  then show "compute_kl A p (map (\<lambda>_. Fin 0) p) = fl_neg (r_sum A p)"
    by (simp only: compute_kl_terms [OF assms] t q)
qed

theorem compute_kl_self_witness:
  "compute_kl binary32 [Fin 1, Fin 1] [Fin 1, Fin 1] = Fin 0
   \<and> compute_kl binary32 [Fin 1, Fin 1] [Fin 0, Fin 0] = Fin (- 2)"
proof -
  have s: "r_sum binary32 [Fin 1, Fin 1] = Fin 2"
    by (simp add: r_sum_def r_add_def binary32_sel round32_1 round32_2)
  from compute_kl_self [OF ieee_binary32, of "[Fin 1, Fin 1]"] show ?thesis
    by (simp add: s)
qed

text \<open>
  C7, as the specification states it: \<open>compute_kl\<close> is the sum of \<open>p * log (p / q)\<close> minus
  the mass of \<open>p\<close> plus the mass of \<open>q\<close> with the convention \<open>0 log 0 = 0\<close>, and the result
  is finite on nonnegative finite inputs. At \<open>p = [2]\<close>, \<open>q = [0]\<close> the stated formula is
  \<open>+inf\<close> and \<open>compute_kl\<close> returns \<open>-2\<close>: the term is \<open>+inf\<close>, it comes from no zero over
  zero, and it is replaced by zero all the same. At \<open>p = [2 ^ 127, 2 ^ 127]\<close>,
  \<open>q = [0, 0]\<close>, in single precision, the mass of \<open>p\<close> overflows and \<open>compute_kl\<close> returns
  \<open>-inf\<close>.
\<close>

theorem compute_kl_not_generalizedKL:
  "generalizedKL binary32 [Fin 2] [Fin 0] = PInf
   \<and> compute_kl binary32 [Fin 2] [Fin 0] = Fin (- 2)
   \<and> compute_kl binary32 [Fin (2 ^ 127), Fin (2 ^ 127)] [Fin 0, Fin 0] = NInf"
proof (intro conjI)
  have m: "round32 (- 2) = Fin (- 2)" by (simp only: round32_minus round32_2 fl_neg.simps)
  show "generalizedKL binary32 [Fin 2] [Fin 0] = PInf"
    by (simp add: generalizedKL_def spec_term_def r_sum_def r_add_def r_sub_def r_mul_def
        r_div_def fl_sub_def inf_of_sign_def binary32_sel round32_0 round32_2)
  show "compute_kl binary32 [Fin 2] [Fin 0] = Fin (- 2)"
    by (simp add: compute_kl_def compute_approx_kl_def r_sum_def r_add_def r_sub_def r_mul_def
        r_div_def fl_sub_def inf_of_sign_def binary32_sel round32_0 round32_2 m)
  note s = r_sum_big
  show "compute_kl binary32 [Fin (2 ^ 127), Fin (2 ^ 127)] [Fin 0, Fin 0] = NInf"
    unfolding compute_kl_terms [OF ieee_binary32] s
    by (simp add: kl_term_def r_sum_def r_add_def r_sub_def fl_sub_def binary32_sel round32_0
        del: power_numeral)
qed

text \<open>
  C7, amended: in every arithmetic that rounds as the IEEE formats do, on inputs of
  equal shape, \<open>compute_kl\<close> is the sum of the terms minus the mass of \<open>p\<close> plus the mass
  of \<open>q\<close>, every operation rounded, where a term is \<open>p * log (p / q)\<close> when that is finite
  and zero when it is not, and zero where \<open>p\<close> or \<open>q\<close> is zero. Every term is finite.
  Where every term of the stated formula is finite, \<open>compute_kl\<close> is the stated formula.
  The result is not NaN when the masses of \<open>p\<close> and \<open>q\<close> are finite.
\<close>

theorem compute_kl_formula:
  assumes "ieee A" and "length p = length q"
  shows "compute_kl A p q
      = r_add A (r_sub A (r_sum A (map2 (kl_term A) p q)) (r_sum A p)) (r_sum A q)
    \<and> (\<forall>x\<in>set (map2 (kl_term A) p q). is_fin x)
    \<and> ((\<forall>(a, b)\<in>set (zip p q). is_fin (spec_term A a b)) \<longrightarrow>
          compute_kl A p q = generalizedKL A p q)
    \<and> (is_fin (r_sum A p) \<and> is_fin (r_sum A q) \<longrightarrow> \<not> isnan (compute_kl A p q))"
proof (intro conjI impI)
  show f: "compute_kl A p q
      = r_add A (r_sub A (r_sum A (map2 (kl_term A) p q)) (r_sum A p)) (r_sum A q)"
    using assms(1) by (rule compute_kl_terms)
  show t: "\<forall>x\<in>set (map2 (kl_term A) p q). is_fin x"
    by (auto simp: kl_term_fin)
  show "compute_kl A p q = generalizedKL A p q"
    if "\<forall>(a, b)\<in>set (zip p q). is_fin (spec_term A a b)"
  proof -
    from that have "map2 (kl_term A) p q = map2 (spec_term A) p q"
      by (auto simp: kl_term_spec [OF assms(1)])
    then show ?thesis by (simp only: f generalizedKL_def)
  qed
  show "\<not> isnan (compute_kl A p q)" if "is_fin (r_sum A p) \<and> is_fin (r_sum A q)"
  proof -
    from that obtain y z where y: "r_sum A p = Fin y" and z: "r_sum A q = Fin z"
      by (cases "r_sum A p"; cases "r_sum A q") simp_all
    from assms(1) t have n: "r_sum A (map2 (kl_term A) p q) \<noteq> NaN" by (rule r_sum_not_nan)
    from assms(1) have nn: "\<And>x. rnd A x \<noteq> NaN" by (simp add: ieee_def)
    have "r_sub A (r_sum A (map2 (kl_term A) p q)) (Fin y) \<noteq> NaN"
      using n nn by (cases "r_sum A (map2 (kl_term A) p q)") (simp_all add: r_sub_def fl_sub_def)
    then have "r_add A (r_sub A (r_sum A (map2 (kl_term A) p q)) (Fin y)) (Fin z) \<noteq> NaN"
      using nn by (cases "r_sub A (r_sum A (map2 (kl_term A) p q)) (Fin y)")
        (simp_all add: r_add_def)
    then show ?thesis
      unfolding f y z
      by (cases "r_add A (r_sub A (r_sum A (map2 (kl_term A) p q)) (Fin y)) (Fin z)") simp_all
  qed
qed

theorem compute_kl_formula_witness:
  "compute_kl binary32 [Fin 2, Fin 0] [Fin 0, Fin 1] = Fin (- 1)
   \<and> compute_kl binary32 [Fin 1, Fin 0] [Fin 1, Fin 1]
       = generalizedKL binary32 [Fin 1, Fin 0] [Fin 1, Fin 1]
   \<and> \<not> isnan (compute_kl binary32 [Fin 1, Fin 0] [Fin 1, Fin 1])"
proof (intro conjI)
  have m: "round32 (- 1) = Fin (- 1)" "round32 (- 2) = Fin (- 2)"
    by (simp_all only: round32_minus round32_1 round32_2 fl_neg.simps)
  have l: "length [Fin 2, Fin 0] = length [Fin 0, Fin 1 :: fl]"
    "length [Fin 1, Fin 0] = length [Fin 1, Fin 1 :: fl]" by simp_all
  from compute_kl_formula [OF ieee_binary32 l(1)]
  have "compute_kl binary32 [Fin 2, Fin 0] [Fin 0, Fin 1]
      = r_add binary32 (r_sub binary32 (r_sum binary32 (map2 (kl_term binary32) [Fin 2, Fin 0]
          [Fin 0, Fin 1])) (r_sum binary32 [Fin 2, Fin 0])) (r_sum binary32 [Fin 0, Fin 1])"
    by (elim conjE)
  then show "compute_kl binary32 [Fin 2, Fin 0] [Fin 0, Fin 1] = Fin (- 1)"
    by (simp add: kl_term_def r_sum_def r_add_def r_sub_def fl_sub_def binary32_sel
        round32_0 round32_1 round32_2 m)
  have s: "r_sum binary32 [Fin 1, Fin 0] = Fin 1" "r_sum binary32 [Fin 1, Fin 1] = Fin 2"
    by (simp_all add: r_sum_def r_add_def binary32_sel round32_0 round32_1 round32_2)
  have f: "\<forall>(a, b)\<in>set (zip [Fin 1, Fin 0] [Fin 1, Fin 1]). is_fin (spec_term binary32 a b)"
    by (simp add: spec_term_def r_mul_def r_div_def binary32_sel round32_0 round32_1)
  from compute_kl_formula [OF ieee_binary32 l(2)] f
  show "compute_kl binary32 [Fin 1, Fin 0] [Fin 1, Fin 1]
       = generalizedKL binary32 [Fin 1, Fin 0] [Fin 1, Fin 1]"
    by (elim conjE) simp
  from compute_kl_formula [OF ieee_binary32 l(2)] s
  show "\<not> isnan (compute_kl binary32 [Fin 1, Fin 0] [Fin 1, Fin 1])"
    by (elim conjE) simp
qed

section \<open>The fitting loop\<close>

lemma ot_plans_loop_Cons_cases:
  assumes "ot_plans_loop c2f ps bw bf (item # rest) (np, nl, m) = (calls, res)"
  obtains
    (index) l where "ps = Some l" "\<not> fst item < length l" "calls = []" "res = Inl IndexError"
  | (raised) e where "\<forall>l. ps = Some l \<longrightarrow> fst item < length l"
      "c2f (call_args ps bw bf item m) = Inl e" "calls = [call_args ps bw bf item m]" "res = Inl e"
  | (nan) r where "\<forall>l. ps = Some l \<longrightarrow> fst item < length l"
      "c2f (call_args ps bw bf item m) = Inr r" "list_ex isnan (sp_values (fine_pi r))"
      "calls = [call_args ps bw bf item m]"
      "res = Inl (ValueError ''Fine plan contains NaN values'')"
  | (more) r calls' where "\<forall>l. ps = Some l \<longrightarrow> fst item < length l"
      "c2f (call_args ps bw bf item m) = Inr r" "\<not> list_ex isnan (sp_values (fine_pi r))"
      "calls = call_args ps bw bf item m # calls'"
      "ot_plans_loop c2f ps bw bf rest
         (np @ [fine_pi r], nl @ [(fine_loss r, fine_loss_steps r, fine_loss_times r)],
          ret_sparsity_mask r) = (calls', res)"
proof (cases item)
  case (fields i f w)
  show ?thesis
  proof (cases ps)
    case None
    then show ?thesis
      using assms fields raised nan more
      by (auto simp: call_args_def Let_def split: sum.splits if_splits prod.splits)
  next
    case (Some l)
    then show ?thesis
      using assms fields index raised nan more
      by (auto simp: call_args_def Let_def split: sum.splits if_splits prod.splits)
  qed
qed

lemma ot_plans_loop_length:
  "ot_plans_loop c2f ps bw bf items (np, nl, m) = (calls, res) \<Longrightarrow> length calls \<le> length items"
proof (induction items arbitrary: np nl m calls)
  case Nil
  then show ?case by simp
next
  case (Cons item rest)
  from Cons.prems show ?case
  proof (cases rule: ot_plans_loop_Cons_cases)
    case (more r calls')
    then show ?thesis using Cons.IH by fastforce
  qed simp_all
qed

lemma ot_plans_loop_ok:
  "ot_plans_loop c2f ps bw bf items (np, nl, m) = (calls, Inr (np', nl', m')) \<Longrightarrow>
   length calls = length items \<and>
   (\<forall>a\<in>set calls. \<exists>r. c2f a = Inr r \<and> \<not> list_ex isnan (sp_values (fine_pi r))) \<and>
   np' = np @ map (pi_of c2f) calls \<and>
   nl' = nl @ map (loss_of c2f) calls \<and>
   m' = last (m # map (mask_of c2f) calls)"
proof (induction items arbitrary: np nl m calls)
  case Nil
  then show ?case by simp
next
  case (Cons item rest)
  from Cons.prems show ?case
  proof (cases rule: ot_plans_loop_Cons_cases)
    case (more r calls')
    from Cons.IH [OF more(5)] more(1-4) show ?thesis
      by (simp add: pi_of_def loss_of_def mask_of_def)
  qed simp_all
qed

lemma ot_plans_loop_calls:
  "ot_plans_loop c2f ps bw bf items (np, nl, m) = (calls, res) \<Longrightarrow> j < length calls \<Longrightarrow>
   calls ! j = call_args ps bw bf (items ! j) ((m # map (mask_of c2f) calls) ! j) \<and>
   (\<forall>l. ps = Some l \<longrightarrow> fst (items ! j) < length l) \<and>
   (\<forall>k<j. \<exists>r. c2f (calls ! k) = Inr r)"
proof (induction items arbitrary: np nl m calls j)
  case Nil
  then show ?case by simp
next
  case (Cons item rest)
  from Cons.prems(1) show ?case
  proof (cases rule: ot_plans_loop_Cons_cases)
    case (index l)
    with Cons.prems show ?thesis by simp
  next
    case (raised e)
    with Cons.prems show ?thesis by simp
  next
    case (nan r)
    with Cons.prems show ?thesis by simp
  next
    case (more r calls')
    show ?thesis
    proof (cases j)
      case 0
      with more show ?thesis by simp
    next
      case (Suc j')
      with Cons.prems(2) more(4) have j': "j' < length calls'" by simp
      from Cons.IH [OF more(5) j'] Suc more(1-4) show ?thesis
        by (auto simp: mask_of_def less_Suc_eq_0_disj)
    qed
  qed
qed

lemma accumulate_Some: "\<exists>m. accumulate w xs (Some b) = Some m"
  by (induction xs arbitrary: b) auto

lemma accumulate_None_iff: "accumulate w xs None = None \<longleftrightarrow> xs = []"
proof (cases xs)
  case Nil
  then show ?thesis by simp
next
  case (Cons x rest)
  obtain a f where "x = (a, f)" by (cases x)
  with Cons accumulate_Some [of w rest "acc w a f"] show ?thesis by auto
qed

lemma update_barycenter_features_ok_nonempty:
  "update_barycenter_features ps fs = Inr bf \<Longrightarrow> ps \<noteq> [] \<and> fs \<noteq> []"
  by (auto simp: update_barycenter_features_def accumulate_None_iff split: option.splits)

lemma fit_round_compute:
  "fit_round c2f cb wl fs idx st = (calls, res) \<Longrightarrow>
   \<exists>res'. ot_plans_loop c2f (plans st) (barycenter_weights st) (barycenter_features st)
            (enumerate 0 (zip fs wl)) ([], [], sparsity_mask st) = (calls, res')"
  by (auto simp: fit_round_def compute_all_ot_plans_def Let_def
      split: prod.splits sum.splits option.splits)

lemma fit_round_calls:
  assumes "fit_round c2f cb wl fs idx st = (calls, res)" and "j < length calls"
  shows "calls ! j = call_args (plans st) (barycenter_weights st) (barycenter_features st)
           (j, fs ! j, wl ! j) ((sparsity_mask st # map (mask_of c2f) calls) ! j)"
    and "j < length fs" and "j < length wl"
    and "\<forall>l. plans st = Some l \<longrightarrow> j < length l"
    and "\<forall>k<j. \<exists>r. c2f (calls ! k) = Inr r"
proof -
  from fit_round_compute [OF assms(1)] obtain res' where
    loop: "ot_plans_loop c2f (plans st) (barycenter_weights st) (barycenter_features st)
            (enumerate 0 (zip fs wl)) ([], [], sparsity_mask st) = (calls, res')" by blast
  from ot_plans_loop_length [OF loop] assms(2) have j: "j < length (zip fs wl)" by simp
  then show "j < length fs" "j < length wl" by simp_all
  from j have item: "enumerate 0 (zip fs wl) ! j = (j, fs ! j, wl ! j)"
    by (simp add: nth_enumerate_eq)
  from ot_plans_loop_calls [OF loop assms(2)] item
  show "calls ! j = call_args (plans st) (barycenter_weights st) (barycenter_features st)
           (j, fs ! j, wl ! j) ((sparsity_mask st # map (mask_of c2f) calls) ! j)"
    and "\<forall>l. plans st = Some l \<longrightarrow> j < length l"
    and "\<forall>k<j. \<exists>r. c2f (calls ! k) = Inr r"
    by simp_all
qed

lemma fit_round_ok:
  assumes "fit_round c2f cb wl fs idx st = (calls, Inr st')"
  shows "length calls = min (length fs) (length wl)"
    and "calls \<noteq> []"
    and "\<forall>a\<in>set calls. \<exists>r. c2f a = Inr r \<and> \<not> list_ex isnan (sp_values (fine_pi r))"
    and "plans st' = Some (map (pi_of c2f) calls)"
    and "sparsity_mask st' = last (sparsity_mask st # map (mask_of c2f) calls)"
    and "losses_each_bar_step st' = losses_each_bar_step st @ [map (loss_of c2f) calls]"
    and "barycenter_weights st' = barycenter_weights st"
    and "update_barycenter_features (map (pi_of c2f) calls) fs = Inr (barycenter_features st')"
proof -
  from assms obtain np nl m bf where
    comp: "compute_all_ot_plans c2f (plans st) wl fs (barycenter_weights st)
             (barycenter_features st) (sparsity_mask st) = (calls, Inr (np, nl, m))"
    and upd: "update_barycenter_features np fs = Inr bf"
    and st': "st' = st\<lparr>plans := Some np, sparsity_mask := m,
                 losses_each_bar_step := losses_each_bar_step st @ [nl],
                 barycenter_features := bf\<rparr>"
    by (auto simp: fit_round_def Let_def split: prod.splits sum.splits option.splits)
  from comp have loop: "ot_plans_loop c2f (plans st) (barycenter_weights st)
      (barycenter_features st) (enumerate 0 (zip fs wl)) ([], [], sparsity_mask st)
      = (calls, Inr (np, nl, m))"
    by (simp add: compute_all_ot_plans_def)
  note ok = ot_plans_loop_ok [OF loop]
  from ok show "length calls = min (length fs) (length wl)" by simp
  from ok show "\<forall>a\<in>set calls. \<exists>r. c2f a = Inr r \<and> \<not> list_ex isnan (sp_values (fine_pi r))"
    by blast
  from ok st' show "plans st' = Some (map (pi_of c2f) calls)" by simp
  from ok st' show "sparsity_mask st' = last (sparsity_mask st # map (mask_of c2f) calls)"
    by simp
  from ok st' show "losses_each_bar_step st' = losses_each_bar_step st @ [map (loss_of c2f) calls]"
    by simp
  from st' show "barycenter_weights st' = barycenter_weights st" by simp
  from ok upd st' show "update_barycenter_features (map (pi_of c2f) calls) fs
      = Inr (barycenter_features st')" by simp
  from ok upd update_barycenter_features_ok_nonempty [of np fs bf] show "calls \<noteq> []" by auto
qed

lemma fit_loop_Cons_cases:
  assumes "fit_loop c2f cb wl fs (idx # rest) st = (rounds, res)"
  obtains
    (failed) calls e where "fit_round c2f cb wl fs idx st = (calls, Inl e)"
      "rounds = [calls]" "res = Inl e"
  | (more) calls st' rounds' where "fit_round c2f cb wl fs idx st = (calls, Inr st')"
      "rounds = calls # rounds'" "fit_loop c2f cb wl fs rest st' = (rounds', res)"
  using assms by (auto split: prod.splits sum.splits)

lemma fit_loop_ok:
  "fit_loop c2f cb wl fs idxs st = (rounds, Inr st') \<Longrightarrow>
   length rounds = length idxs \<and>
   (\<forall>calls\<in>set rounds. length calls = min (length fs) (length wl)) \<and>
   losses_each_bar_step st' = losses_each_bar_step st @ map (map (loss_of c2f)) rounds \<and>
   barycenter_weights st' = barycenter_weights st"
proof (induction idxs arbitrary: st rounds)
  case Nil
  then show ?case by simp
next
  case (Cons idx rest)
  from Cons.prems show ?case
  proof (cases rule: fit_loop_Cons_cases)
    case (failed calls e)
    then show ?thesis by simp
  next
    case (more calls st1 rounds')
    from Cons.IH [OF more(3)] fit_round_ok [OF more(1)] more(2) show ?thesis by simp
  qed
qed

lemma fit_round_call_fields:
  assumes "fit_round c2f cb wl fs idx st = (calls, res)" and "i < length calls"
  shows "i < length fs \<and> i < length wl \<and>
    arg_source_features (calls ! i) = fs ! i \<and>
    arg_source_weights (calls ! i) = wl ! i \<and>
    arg_target_weights (calls ! i) = barycenter_weights st \<and>
    arg_target_features (calls ! i) = barycenter_features st \<and>
    arg_init_plan (calls ! i) = map_option (\<lambda>l. l ! i) (plans st) \<and>
    arg_sparsity_mask (calls ! i)
      = (if 0 < i then mask_of c2f (calls ! (i - 1)) else sparsity_mask st) \<and>
    (\<forall>l. plans st = Some l \<longrightarrow> i < length l) \<and>
    (\<forall>k<i. \<exists>x. c2f (calls ! k) = Inr x)"
proof -
  note f = fit_round_calls [OF assms]
  have "(sparsity_mask st # map (mask_of c2f) calls) ! i
      = (if 0 < i then mask_of c2f (calls ! (i - 1)) else sparsity_mask st)"
    using assms(2) by (cases i) simp_all
  with f show ?thesis by (simp add: call_args_def)
qed

lemma fit_loop_threading:
  "fit_loop c2f cb wl fs idxs st = (rounds, res) \<Longrightarrow> r < length rounds \<Longrightarrow>
   i < length (rounds ! r) \<Longrightarrow>
   i < length fs \<and> i < length wl \<and>
   arg_source_features (rounds ! r ! i) = fs ! i \<and>
   arg_source_weights (rounds ! r ! i) = wl ! i \<and>
   arg_target_weights (rounds ! r ! i) = barycenter_weights st \<and>
   (if r = 0 then arg_target_features (rounds ! r ! i) = barycenter_features st
    else update_barycenter_features (map (pi_of c2f) (rounds ! (r - 1))) fs
      = Inr (arg_target_features (rounds ! r ! i))) \<and>
   arg_init_plan (rounds ! r ! i)
     = (if r = 0 then map_option (\<lambda>l. l ! i) (plans st)
        else Some (pi_of c2f (rounds ! (r - 1) ! i))) \<and>
   arg_sparsity_mask (rounds ! r ! i)
     = (if 0 < i then mask_of c2f (rounds ! r ! (i - 1))
        else if r = 0 then sparsity_mask st
        else mask_of c2f (last (rounds ! (r - 1)))) \<and>
   (r = 0 \<longrightarrow> (\<forall>l. plans st = Some l \<longrightarrow> i < length l)) \<and>
   (0 < r \<longrightarrow> i < length (rounds ! (r - 1)) \<and>
      (\<forall>a\<in>set (rounds ! (r - 1)). \<exists>x. c2f a = Inr x)) \<and>
   (\<forall>k<i. \<exists>x. c2f (rounds ! r ! k) = Inr x)"
proof (induction idxs arbitrary: st rounds r)
  case Nil
  then show ?case by simp
next
  case (Cons idx rest)
  from Cons.prems(1) show ?case
  proof (cases rule: fit_loop_Cons_cases)
    case (failed calls e)
    with Cons.prems have "r = 0" "i < length calls" by simp_all
    with fit_round_call_fields [OF failed(1), of i] failed(2) show ?thesis by simp
  next
    case (more calls st1 rounds')
    show ?thesis
    proof (cases r)
      case 0
      with Cons.prems more(2) have "i < length calls" by simp
      with fit_round_call_fields [OF more(1), of i] more(2) 0 show ?thesis by simp
    next
      case (Suc r')
      with Cons.prems more(2) have r': "r' < length rounds'" and i: "i < length (rounds' ! r')"
        by simp_all
      note ih = Cons.IH [OF more(3) r' i]
      note ok = fit_round_ok [OF more(1)]
      show ?thesis
      proof (cases r')
        case 0
        from ih 0 ok(4) have il: "i < length calls" by simp
        from ok(2) have lm: "last (sparsity_mask st # map (mask_of c2f) calls)
            = mask_of c2f (last calls)" by (simp add: last_map)
        from ih 0 ok il lm Suc more(2) show ?thesis by auto
      next
        case (Suc r'')
        with ih ok(7) \<open>r = Suc r'\<close> more(2) show ?thesis by simp
      qed
    qed
  qed
qed

lemma example_update:
  "update_barycenter_features
     [\<lparr>nrows = 1, ncols = 1, entries = [(0, 0, Fin 1)]\<rparr>,
      \<lparr>nrows = 2, ncols = 1, entries = [(0, 0, Fin 1)]\<rparr>] example_features = Inr [[NaN]]"
  by (simp add: update_barycenter_features_def example_features_def acc_def normalize_def
      div_rows_def sp_mm_def sp_scale_def sp_T_def m_T_def width_def pi_sum_def sp_sum_dim0_def
      floor_eps_def m_add_def column_def rescale_def fl_sum_def fl_sub_def inf_of_sign_def
      min2_def max2_def)

lemma example_update':
  "update_barycenter_features [example_plan (Suc 0), example_plan (Suc (Suc 0))] example_features
   = Inr [[NaN]]"
  using example_update by (simp add: example_plan_def numeral_2_eq_2)

lemma example_c2f_eq:
  "example_c2f a = Inr \<lparr>fine_pi = example_plan (length (arg_source_weights a)),
     fine_loss = 0, fine_loss_steps = [], fine_loss_times = [], ret_sparsity_mask = Some 7\<rparr>"
  by (simp add: example_c2f_def example_plan_def)

lemma example_plan_values: "sp_values (example_plan n) = [Fin 1]"
  by (simp add: sp_values_def example_plan_def)

lemma example_plans:
  "ps = None \<or> ps = Some [example_plan 1, example_plan 2] \<Longrightarrow>
   compute_all_ot_plans example_c2f ps example_weights example_features [Fin 1] bf m
   = ([example_call 0 bf (map_option (\<lambda>l. l ! 0) ps) m,
       example_call 1 bf (map_option (\<lambda>l. l ! 1) ps) (Some 7)],
      Inr ([example_plan (Suc 0), example_plan (Suc (Suc 0))],
           [(0, [], []), (0, [], [])], Some 7))"
  by (auto simp: compute_all_ot_plans_def example_weights_def example_call_def
      enumerate_eq_zip example_c2f_eq example_plan_values Let_def
      numeral_2_eq_2 example_features_def upt_rec)

lemma example_round:
  "ps = None \<or> ps = Some [example_plan 1, example_plan 2] \<Longrightarrow>
   fit_round example_c2f None example_weights example_features idx
     \<lparr>barycenter_weights = [Fin 1], barycenter_features = bf, plans = ps,
      sparsity_mask = m, losses_each_bar_step = h\<rparr>
   = ([example_call 0 bf (map_option (\<lambda>l. l ! 0) ps) m,
       example_call 1 bf (map_option (\<lambda>l. l ! 1) ps) (Some 7)],
      Inr \<lparr>barycenter_weights = [Fin 1], barycenter_features = [[NaN]],
           plans = Some [example_plan 1, example_plan 2],
           sparsity_mask = Some 7,
           losses_each_bar_step = h @ [[(0, [], []), (0, [], [])]]\<rparr>)"
  unfolding fit_round_def
  by (simp add: example_plans example_update' numeral_2_eq_2)

lemma example_fit:
  "fit example_c2f example_weights example_features None None (Some [[Fin 1]]) 2 None
   = ([[example_call 0 [[Fin 1]] None None, example_call 1 [[Fin 1]] None (Some 7)],
       [example_call 0 [[NaN]] (Some (example_plan 1)) (Some 7),
        example_call 1 [[NaN]] (Some (example_plan 2)) (Some 7)]],
      Inr ([Fin 1], [[NaN]], Some [example_plan 1, example_plan 2],
           [[(0, [], []), (0, [], [])], [(0, [], []), (0, [], [])]]))"
proof -
  have bsize: "(case example_weights of [] \<Rightarrow> Inl IndexError | w # _ \<Rightarrow> Inr (length w)) = Inr 1"
    by (simp add: example_weights_def)
  have idxs: "[0..<nat 2] = [0, 1]"
    by (simp add: upt_rec)
  show ?thesis
    unfolding fit_def idxs bsize by (simp add: example_round)
qed

lemma fit_cases:
  assumes "fit c2f wl fs bsize iw ifeat n cb = (rounds, res)"
  obtains
    (early) e where "rounds = []" "res = Inl e"
  | (looped) f0 res' where
      "fit_loop c2f cb wl fs [0..<nat n]
         \<lparr>barycenter_weights = initial_weights wl bsize iw, barycenter_features = f0,
          plans = None, sparsity_mask = None, losses_each_bar_step = []\<rparr> = (rounds, res')"
      "res = (case res' of Inl e \<Rightarrow> Inl e
              | Inr st \<Rightarrow> Inr (barycenter_weights st, barycenter_features st, plans st,
                               losses_each_bar_step st))"
proof -
  have uniform: "replicate k (fl_div (Fin 1) (Fin (real k))) = replicate k (Fin (1 / real k))"
    for k by (cases k) simp_all
  show ?thesis
    using assms early looped
    unfolding fit_def uniform
    by (auto simp: initial_weights_def Let_def simp del: fl_div.simps
        split: sum.splits option.splits list.splits prod.splits)
qed

text \<open>
  C1, amended: in every round \<open>r\<close> the call for individual \<open>i\<close> is passed the features and
  weights of \<open>i\<close> and, as warm start, the plan that the call for \<open>i\<close> produced in round
  \<open>r - 1\<close> (none in round 0). The sparsity mask it is passed is the one returned by the
  call made just before it: the call for individual \<open>i - 1\<close> of the same round or, for the
  first individual, the last call of the previous round; only the first call of round 0
  is passed none. The calls whose results are passed on have returned without error.
\<close>

theorem fit_warm_start:
  assumes "fit c2f wl fs bsize iw ifeat n cb = (rounds, res)"
    and "r < length rounds" and "i < length (rounds ! r)"
  shows "arg_source_features (rounds ! r ! i) = fs ! i \<and>
    arg_source_weights (rounds ! r ! i) = wl ! i \<and>
    arg_init_plan (rounds ! r ! i)
      = (if r = 0 then None else Some (pi_of c2f (rounds ! (r - 1) ! i))) \<and>
    arg_sparsity_mask (rounds ! r ! i)
      = (if 0 < i then mask_of c2f (rounds ! r ! (i - 1))
         else if r = 0 then None
         else mask_of c2f (last (rounds ! (r - 1)))) \<and>
    (0 < r \<longrightarrow> i < length (rounds ! (r - 1)) \<and>
       (\<forall>a\<in>set (rounds ! (r - 1)). \<exists>x. c2f a = Inr x)) \<and>
    (\<forall>k<i. \<exists>x. c2f (rounds ! r ! k) = Inr x)"
  using assms(1)
proof (cases rule: fit_cases)
  case (early e)
  with assms(2) show ?thesis by simp
next
  case (looped f0 res')
  from fit_loop_threading [OF looped(1) assms(2,3)] show ?thesis by simp
qed


text \<open>
  C9: when \<open>fit\<close> returns without error, it has run as many rounds as
  \<open>nits_barycenter\<close> says, each with one call per individual, and the loss history has
  one entry per round, each made of the loss triples of the calls of that round, one
  per individual; nothing is assumed about the shapes of the individuals' tensors.
\<close>

theorem fit_history_shape:
  assumes "fit c2f wl fs bsize iw ifeat n cb = (rounds, Inr (w, f, ps, hist))"
  shows "length hist = nat n \<and>
    (\<forall>l\<in>set hist. length l = min (length fs) (length wl)) \<and>
    length rounds = nat n \<and>
    (\<forall>calls\<in>set rounds. length calls = min (length fs) (length wl)) \<and>
    hist = map (map (loss_of c2f)) rounds"
  using assms
proof (cases rule: fit_cases)
  case (early e)
  then show ?thesis by simp
next
  case (looped f0 res')
  from looped(2) obtain st where res': "res' = Inr st" and h: "hist = losses_each_bar_step st"
    by (auto split: sum.splits)
  from fit_loop_ok [OF looped(1) [unfolded res']] h show ?thesis by auto
qed

text \<open>
  C1, as the specification states it: within round 0 the call of every individual
  receives no sparsity mask. It fails for the second individual of round 0 in the
  example: the variable \<open>sparsity_mask\<close> of \<open>compute_all_ot_plans\<close> is overwritten by the
  call for the first individual, and the call for the second one is passed that value.
\<close>

theorem fit_mask_shared:
  "arg_sparsity_mask (fst example_fit_result ! 0 ! 1) = Some 7"
  by (simp add: example_fit_result_def example_fit example_call_def)

theorem fit_warm_start_witness:
  "arg_init_plan (fst example_fit_result ! 1 ! 1)
     = Some (pi_of example_c2f (fst example_fit_result ! 0 ! 1))
   \<and> arg_sparsity_mask (fst example_fit_result ! 1 ! 1)
     = mask_of example_c2f (fst example_fit_result ! 1 ! 0)
   \<and> arg_sparsity_mask (fst example_fit_result ! 1 ! 0)
     = mask_of example_c2f (last (fst example_fit_result ! 0))
   \<and> arg_sparsity_mask (fst example_fit_result ! 0 ! 0) = None"
  using fit_warm_start [OF example_fit, of 1 1] fit_warm_start [OF example_fit, of 1 0]
    fit_warm_start [OF example_fit, of 0 0]
  by (simp add: example_fit_result_def example_fit)


theorem fit_history_shape_witness:
  "length (snd (snd (snd (projr (snd example_fit_result))))) = 2
   \<and> map length (snd (snd (snd (projr (snd example_fit_result))))) = [2, 2]
   \<and> map (\<lambda>f. length (hd f)) example_features = [1, 2]"
proof -
  have h: "snd (snd (snd (projr (snd example_fit_result))))
      = [[(0, [], []), (0, [], [])], [(0, [], []), (0, [], [])]]"
    by (simp add: example_fit_result_def example_fit)
  have n: "min (length example_features) (length example_weights) = 2"
    by (simp add: example_features_def example_weights_def)
  from fit_history_shape [OF example_fit]
  have "length [[(0::nat, []::nat list, []::fl list), (0, [], [])], [(0, [], []), (0, [], [])]]
      = nat 2" by blast
  with h n show ?thesis by (simp add: example_features_def)
qed

section \<open>The feature update\<close>

lemma rect_width: "rect m d \<Longrightarrow> m \<noteq> [] \<Longrightarrow> width m = d"
  by (cases m) (simp_all add: rect_def width_def)

lemma m_T_nth:
  "k < width m \<Longrightarrow> m_T m ! k = column m k"
  by (simp add: m_T_def column_def)

lemma length_m_T: "length (m_T m) = width m"
  by (simp add: m_T_def)

lemma normalize_entry:
  assumes r: "rect bf d" and ne: "bf \<noteq> []" and k: "k < d" and b: "b < length bf"
  shows "\<exists>R. normalize bf = Inr R \<and> length R = d \<and> length (R ! k) = length bf \<and>
    R ! k ! b = rescale (bf ! b ! k) (torch_min (column bf k)) (torch_max (column bf k))"
proof -
  define mn where "mn = map (\<lambda>k. torch_min (column bf k)) [0..<width bf]"
  define mx where "mx = map (\<lambda>k. torch_max (column bf k)) [0..<width bf]"
  define g where "g = (\<lambda>r. map (\<lambda>(x, mn, mx). rescale x mn mx) (zip r (zip mn mx)))"
  define M where "M = map g bf"
  have w: "width bf = d" using r ne by (rule rect_width)
  have len: "length mn = d" "length mx = d" by (simp_all add: mn_def mx_def w)
  have norm: "normalize bf = Inr (m_T M)"
    using ne by (simp add: normalize_def Let_def M_def g_def mn_def mx_def)
  have g_len: "length (g x) = d" if "x \<in> set bf" for x
    using that r len by (simp add: g_def rect_def)
  have "rect M d" using g_len by (simp add: rect_def M_def)
  moreover have "M \<noteq> []" using ne by (simp add: M_def)
  ultimately have wM: "width M = d" by (rule rect_width)
  have row: "m_T M ! k = map (\<lambda>x. g x ! k) bf"
    using k wM by (simp add: m_T_nth column_def M_def)
  have "bf ! b \<in> set bf" using b by simp
  then have lb: "length (bf ! b) = d" using r by (simp add: rect_def)
  have "g (bf ! b) ! k = rescale (bf ! b ! k) (mn ! k) (mx ! k)"
    using k lb len by (simp add: g_def)
  also have "mn ! k = torch_min (column bf k)" using k w by (simp add: mn_def)
  also have "mx ! k = torch_max (column bf k)" using k w by (simp add: mx_def)
  finally have "m_T M ! k ! b
      = rescale (bf ! b ! k) (torch_min (column bf k)) (torch_max (column bf k))"
    using row b by simp
  moreover have "length (m_T M) = d" by (simp add: length_m_T wM)
  moreover have "length (m_T M ! k) = length bf" by (simp add: row)
  ultimately show ?thesis using norm by simp
qed

lemma foldl_min2_same: "foldl min2 c (replicate n c) = c"
  by (induction n) (simp_all add: min2_def)

lemma foldl_max2_same: "foldl max2 c (replicate n c) = c"
  by (induction n) (simp_all add: max2_def)

lemma torch_min_max_constant:
  assumes "xs \<noteq> []" and "\<forall>x\<in>set xs. x = c"
  shows "torch_min xs = c" and "torch_max xs = c"
proof -
  from assms obtain ys where xs: "xs = c # ys" and "\<forall>x\<in>set ys. x = c"
    by (cases xs) auto
  then have "ys = replicate (length ys) c"
    by (simp add: replicate_length_same)
  with xs have "xs = c # replicate (length ys) c" by simp
  then show "torch_min xs = c" and "torch_max xs = c"
    by (simp_all add: foldl_min2_same foldl_max2_same)
qed

lemma rescale_same: "rescale c c c = NaN"
  by (cases c) (simp_all add: rescale_def fl_sub_def inf_of_sign_def)

lemma rect_div_rows: "rect m d \<Longrightarrow> rect (div_rows m s) d"
  by (auto simp: rect_def div_rows_def dest!: set_zip_leftD)

lemma rect_sp_mm: "rect (sp_mm a m) (width m)"
  by (auto simp: rect_def sp_mm_def)

lemma rect_acc: "rect (acc w a f) (width (m_T f))"
  unfolding acc_def by (intro rect_div_rows rect_sp_mm)

lemma rect_m_add: "rect m d \<Longrightarrow> rect a d' \<Longrightarrow> rect (m_add m a) (min d d')"
  by (auto simp: rect_def m_add_def in_set_zip)

lemma accumulate_rect:
  "accumulate w xs b0 = Some bf \<Longrightarrow> (\<forall>m. b0 = Some m \<longrightarrow> (\<exists>d. rect m d)) \<Longrightarrow> \<exists>d. rect bf d"
proof (induction xs arbitrary: b0)
  case Nil
  then show ?case by simp
next
  case (Cons x xs)
  obtain a f where x: "x = (a, f)" by (cases x)
  show ?case
  proof (cases b0)
    case None
    with Cons.prems x have "accumulate w xs (Some (acc w a f)) = Some bf" by simp
    moreover have "\<forall>m. Some (acc w a f) = Some m \<longrightarrow> (\<exists>d. rect m d)"
      using rect_acc by blast
    ultimately show ?thesis by (rule Cons.IH)
  next
    case (Some m)
    with Cons.prems obtain d where d: "rect m d" by blast
    from Some Cons.prems x have "accumulate w xs (Some (m_add m (acc w a f))) = Some bf" by simp
    moreover have "\<forall>m'. Some (m_add m (acc w a f)) = Some m' \<longrightarrow> (\<exists>d. rect m' d)"
      using rect_m_add [OF d rect_acc] by blast
    ultimately show ?thesis by (rule Cons.IH)
  qed
qed

text \<open>
  C10: the normalisation divides by \<open>max - min\<close> with no guard. Whenever the aggregated
  matrix, before the normalisation, has the same value at every barycenter point along
  a feature dimension \<open>k\<close>, \<open>update_barycenter_features\<close> returns, and every entry of the
  result along \<open>k\<close> is NaN (there is at least one): for a finite value \<open>max - min\<close> and
  \<open>x - min\<close> are zero and \<open>0 / 0\<close> is NaN, for an infinite one \<open>x - min\<close> is NaN
  already. The floor \<open>1e-16\<close> of \<open>pi_sum\<close> plays no part in it.
\<close>

theorem update_constant_dimension:
  assumes agg: "accumulate (Fin (1 / real (length fs))) (zip ps fs) None = Some bf"
    and k: "k < width bf" and const: "\<forall>r\<in>set bf. r ! k = c"
  shows "\<exists>R. update_barycenter_features ps fs = Inr R \<and> k < length R \<and>
    length (R ! k) = length bf \<and> 0 < length bf \<and> (\<forall>b<length bf. R ! k ! b = NaN)"
proof -
  from k have ne: "bf \<noteq> []" by (auto simp: width_def)
  from accumulate_rect [OF agg] obtain d where "rect bf d" by auto
  with ne have r: "rect bf (width bf)" by (simp add: rect_width)
  have col: "\<forall>x\<in>set (column bf k). x = c" using const by (simp add: column_def)
  have cne: "column bf k \<noteq> []" using ne by (simp add: column_def)
  have mm: "torch_min (column bf k) = c" "torch_max (column bf k) = c"
    using torch_min_max_constant [OF cne col] by simp_all
  have upd: "update_barycenter_features ps fs = normalize bf"
    by (simp add: update_barycenter_features_def agg)
  from ne obtain b0 where b0: "b0 < length bf" by (cases bf) auto
  from normalize_entry [OF r ne k b0] obtain R where
    R: "normalize bf = Inr R" "length R = width bf" "length (R ! k) = length bf" by blast
  have "R ! k ! b = NaN" if "b < length bf" for b
  proof -
    from normalize_entry [OF r ne k that] R(1)
    have "R ! k ! b = rescale (bf ! b ! k) c c" by (simp add: mm)
    moreover have "bf ! b ! k = c" using const that by simp
    ultimately show ?thesis by (simp add: rescale_same)
  qed
  with R upd k ne show ?thesis by simp
qed

lemma example_accumulate2:
  "accumulate (Fin (1 / real (length [[[Fin 3]]]))) (zip [example_plan2] [[[Fin 3]]]) None
   = Some [[fl_div (Fin 3) (fl_add (Fin 1) floor_eps)], [fl_div (Fin 3) (fl_add (Fin 1) floor_eps)]]"
  by (simp add: example_plan2_def acc_def div_rows_def sp_mm_def sp_scale_def sp_T_def m_T_def
      width_def pi_sum_def sp_sum_dim0_def floor_eps_def fl_sum_def upt_rec)

theorem update_constant_dimension_witness:
  "\<exists>R. update_barycenter_features [example_plan2] [[[Fin 3]]] = Inr R \<and>
     R ! 0 ! 0 = NaN \<and> R ! 0 ! 1 = NaN"
  using update_constant_dimension [OF example_accumulate2, of 0 "fl_div (Fin 3) (fl_add (Fin 1) floor_eps)"]
  by (auto simp: width_def)

section \<open>The feature update on a plan that spreads one point\<close>

text \<open>
  C4: the specification has every feature dimension rescaled to \<open>[-1, 1]\<close>, the extremal
  barycenter points at exactly \<open>-1\<close> and \<open>+1\<close>. On one individual with a single point of
  feature \<open>3\<close>, sent with mass \<open>1\<close> to both points of a barycenter, the code does not
  do so. Both barycenter points get the same aggregated feature (the same product over
  the same floored mass), so \<open>max - min\<close> is zero, and the normalisation, which
  divides by it with no floor of its own, returns NaN at both points.
\<close>

theorem update_constant_not_rescaled:
  "update_barycenter_features [example_plan2] [[[Fin 3]]] = Inr [[NaN, NaN]]"
  by (simp add: update_barycenter_features_def example_plan2_def acc_def normalize_def
      div_rows_def sp_mm_def sp_scale_def sp_T_def m_T_def width_def pi_sum_def sp_sum_dim0_def
      floor_eps_def column_def rescale_def fl_sum_def fl_sub_def inf_of_sign_def
      min2_def max2_def upt_rec)

section \<open>Loops with a break, and the dc solver\<close>

lemma quiet_refl: "quiet bad stop T a a"
  by (auto simp: quiet_def)

lemma quiet_step:
  "\<not> bad a (T a) \<Longrightarrow> \<not> stop a (T a) \<Longrightarrow> quiet bad stop T (Suc a) k \<Longrightarrow> quiet bad stop T a k"
  unfolding quiet_def by (metis Suc_leI le_neq_implies_less)

lemma loop_break_char:
  fixes body :: "nat \<Rightarrow> 's \<Rightarrow> error + bool \<times> 's"
  assumes body: "\<And>i s. Inv s \<Longrightarrow>
      body i s = (if bad i s then Inl e else Inr (stop i s, step i s))"
    and inv: "\<And>i s. Inv s \<Longrightarrow> Inv (step i s)"
    and inv0: "Inv s0"
  defines "T \<equiv> traj step s0"
  shows "(\<exists>k. a \<le> k \<and> k < b \<and> bad k (T k) \<and> quiet bad stop T a k \<and>
            loop_break body [a..<b] (T a) = Inl e)
       \<or> (\<exists>k. a \<le> k \<and> k < b \<and> \<not> bad k (T k) \<and> stop k (T k) \<and> quiet bad stop T a k \<and>
            loop_break body [a..<b] (T a) = Inr (T (Suc k)))
       \<or> (quiet bad stop T a b \<and> loop_break body [a..<b] (T a) = Inr (T (max a b)))"
proof (induction "b - a" arbitrary: a)
  case 0
  then have "[a..<b] = []" and "max a b = a" by simp_all
  moreover from 0 have "quiet bad stop T a b" by (auto simp: quiet_def)
  ultimately show ?case by simp
next
  case (Suc n)
  then have ab: "a < b" and n: "n = b - Suc a" by simp_all
  then have upt: "[a..<b] = a # [Suc a..<b]" by (simp add: upt_conv_Cons)
  have invT: "Inv (T k)" for k
    unfolding T_def by (induction k) (simp_all add: inv0 inv)
  have b: "body a (T a) = (if bad a (T a) then Inl e else Inr (stop a (T a), step a (T a)))"
    by (rule body) (rule invT)
  have TS: "T (Suc a) = step a (T a)" by (simp add: T_def)
  consider (bad) "bad a (T a)" | (stop) "\<not> bad a (T a)" "stop a (T a)"
    | (go) "\<not> bad a (T a)" "\<not> stop a (T a)" by blast
  then show ?case
  proof cases
    case bad
    then have "loop_break body [a..<b] (T a) = Inl e" by (simp add: upt b)
    with bad ab quiet_refl [of bad stop T a] show ?thesis by blast
  next
    case stop
    then have "loop_break body [a..<b] (T a) = Inr (T (Suc a))" by (simp add: upt b TS)
    with stop ab quiet_refl [of bad stop T a] show ?thesis by blast
  next
    case go
    then have eq: "loop_break body [a..<b] (T a) = loop_break body [Suc a..<b] (T (Suc a))"
      by (simp add: upt b TS)
    have mx: "max (Suc a) b = max a b" using ab by simp
    have q: "quiet bad stop T (Suc a) k \<Longrightarrow> quiet bad stop T a k" for k
      using go by (rule quiet_step [of bad a T stop])
    from Suc.hyps(1) [OF n] show ?thesis
      unfolding eq mx
      using q by (metis Suc_leD)
  qed
qed

lemma loop_break_from_0:
  fixes body :: "nat \<Rightarrow> 's \<Rightarrow> error + bool \<times> 's"
  assumes "\<And>i s. Inv s \<Longrightarrow> body i s = (if bad i s then Inl e else Inr (stop i s, step i s))"
    and "\<And>i s. Inv s \<Longrightarrow> Inv (step i s)"
    and "Inv s0"
  shows "(\<exists>k<b. bad k (traj step s0 k) \<and> quiet bad stop (traj step s0) 0 k \<and>
            loop_break body [0..<b] s0 = Inl e)
       \<or> (\<exists>k<b. \<not> bad k (traj step s0 k) \<and> stop k (traj step s0 k) \<and>
            quiet bad stop (traj step s0) 0 k \<and>
            loop_break body [0..<b] s0 = Inr (traj step s0 (Suc k)))
       \<or> (quiet bad stop (traj step s0) 0 b \<and> loop_break body [0..<b] s0 = Inr (traj step s0 b))"
  using loop_break_char [of Inv body bad e stop step s0 0 b, OF assms] by simp

lemma dc_ipot_lengths':
  assumes "length K = n" and "length u = n" and "length cpl = n"
  shows "length (fst (dc_ipot K p eps_base px py (u, v, cpl))) = n"
    and "length (snd (snd (dc_ipot K p eps_base px py (u, v, cpl)))) = n"
  using assms
  by (simp_all add: dc_ipot_def Let_def mv_def m_map2_def m_map_def bcast_row_def col_bcast_def)

lemma dc_ipot_lengths:
  assumes "length K = n" and "length u = n" and "length cpl = n"
    and "dc_ipot K p eps_base px py (u, v, cpl) = (u', v', cpl')"
  shows "length u' = n" and "length cpl' = n"
  using dc_ipot_lengths' [OF assms(1-3), of p eps_base px py v] assms(4) by simp_all

lemma dc_step_inv:
  assumes "length K = n" and "dc_inv n s"
  shows "dc_inv n (dc_step K p t eps_base px py idx s)"
proof -
  obtain u v cpl m1 where s: "s = (u, v, cpl, m1)" by (cases s)
  obtain u' v' cpl' where i: "dc_ipot K p eps_base px py (u, v, cpl) = (u', v', cpl')"
    by (cases "dc_ipot K p eps_base px py (u, v, cpl)")
  from assms s have "length u = n" "length cpl = n" "length m1 = n" by (simp_all add: dc_inv_def)
  with dc_ipot_lengths [OF assms(1) _ _ i] s i show ?thesis
    by (simp add: dc_step_def dc_inv_def sum_dim1_def)
qed

lemma dc_body_eq:
  assumes "length K = n" and "0 < n" and "eval_freq t \<noteq> 0" and "dc_inv n s"
  shows "dc_body K p t eps_base px py idx s =
    (if dc_nonfinite K p t eps_base px py idx s
     then Inl (ValueError ''There is NaN in coupling. Please increase eps_base.'')
     else Inr (dc_converged K p t eps_base px py idx s, dc_step K p t eps_base px py idx s))"
proof -
  obtain u v cpl m1 where s: "s = (u, v, cpl, m1)" by (cases s)
  obtain u' v' cpl' where i: "dc_ipot K p eps_base px py (u, v, cpl) = (u', v', cpl')"
    by (cases "dc_ipot K p eps_base px py (u, v, cpl)")
  from assms(4) s have l: "length u = n" "length cpl = n" "length m1 = n"
    by (simp_all add: dc_inv_def)
  from dc_ipot_lengths [OF assms(1) l(1,2) i] have "length cpl' = n" by simp
  with l(3) assms(2) have ne: "map2 fl_sub (sum_dim1 cpl') m1 \<noteq> []"
    by (auto simp: sum_dim1_def)
  show ?thesis
    using assms(3) ne
    by (simp add: dc_body_def s i dc_nonfinite_def dc_converged_def dc_step_def dc_row_mass_def
        checkpoint_def Let_def)
qed

text \<open>
  C3: a call of \<open>solver_dc\<close> with a nonzero \<open>eval_freq\<close> and at least one row raises
  exactly when the loop reaches an evaluation checkpoint (an index divisible by
  \<open>eval_freq\<close>, below \<open>niters\<close>) at which the recomputed row masses hold a NaN or an
  infinity; the error is the \<open>ValueError\<close> asking to increase \<open>eps_base\<close>, and nothing
  else is returned. At a checkpoint that does not raise, the loop breaks when the
  largest absolute change of the row masses is below \<open>tol\<close>, and the solver returns the
  duals and the coupling of that iteration; when no iteration raises or breaks it
  returns those of the last one.
\<close>

theorem solver_dc_checkpoint:
  assumes ef: "eval_freq t \<noteq> 0" and ne: "cost \<noteq> []"
    and li: "length init_pi = length cost" and lu: "length (fst init_duals) = length cost"
  shows "((\<exists>e. solver_dc cost init_pi init_duals p (px, py, pxy) t eps_base = Inl e) \<longleftrightarrow>
          (\<exists>k<nat (niters t).
             dc_reaches cost init_pi init_duals p (px, py, pxy) t eps_base k \<and>
             dc_raises_at cost init_pi init_duals p (px, py, pxy) t eps_base k))
      \<and> (\<forall>e. solver_dc cost init_pi init_duals p (px, py, pxy) t eps_base = Inl e \<longrightarrow>
            e = ValueError ''There is NaN in coupling. Please increase eps_base.'')
      \<and> (\<forall>k<nat (niters t).
            dc_reaches cost init_pi init_duals p (px, py, pxy) t eps_base k \<and>
            \<not> dc_raises_at cost init_pi init_duals p (px, py, pxy) t eps_base k \<and>
            dc_breaks_at cost init_pi init_duals p (px, py, pxy) t eps_base k \<longrightarrow>
            solver_dc cost init_pi init_duals p (px, py, pxy) t eps_base
              = Inr (dc_result pxy (dc_run cost init_pi init_duals p (px, py, pxy) t eps_base (Suc k))))
      \<and> (dc_reaches cost init_pi init_duals p (px, py, pxy) t eps_base (nat (niters t)) \<longrightarrow>
            solver_dc cost init_pi init_duals p (px, py, pxy) t eps_base
              = Inr (dc_result pxy
                       (dc_run cost init_pi init_duals p (px, py, pxy) t eps_base (nat (niters t)))))"
proof -
  define K where "K = dc_K cost p eps_base"
  define n where "n = length cost"
  define s0 where "s0 = (fst init_duals, snd init_duals, init_pi, sum_dim1 init_pi)"
  define body where "body = dc_body K p t eps_base px py"
  define bad where "bad = dc_nonfinite K p t eps_base px py"
  define stop where "stop = dc_converged K p t eps_base px py"
  define step where "step = dc_step K p t eps_base px py"
  define N where "N = nat (niters t)"
  define msg where "msg = ValueError ''There is NaN in coupling. Please increase eps_base.''"
  define R where "R = solver_dc cost init_pi init_duals p (px, py, pxy) t eps_base"
  define L where "L = loop_break body [0..<N] s0"
  have lK: "length K = n" by (simp add: K_def dc_K_def m_map_def n_def)
  have n0: "0 < n" using ne by (simp add: n_def)
  have inv0: "dc_inv n s0" using li lu by (simp add: dc_inv_def s0_def n_def sum_dim1_def)
  have b: "body i s = (if bad i s then Inl msg else Inr (stop i s, step i s))" if "dc_inv n s" for i s
    unfolding body_def bad_def stop_def step_def msg_def
    using lK n0 ef that by (rule dc_body_eq)
  have st: "dc_inv n (step i s)" if "dc_inv n s" for i s
    unfolding step_def using lK that by (rule dc_step_inv)
  have run: "dc_run cost init_pi init_duals p (px, py, pxy) t eps_base k = traj step s0 k" for k
    by (simp add: dc_run_def step_def s0_def K_def)
  have raises: "dc_raises_at cost init_pi init_duals p (px, py, pxy) t eps_base k
      = bad k (traj step s0 k)" for k
    by (simp add: dc_raises_at_def run bad_def K_def)
  have breaks: "dc_breaks_at cost init_pi init_duals p (px, py, pxy) t eps_base k
      = stop k (traj step s0 k)" for k
    by (simp add: dc_breaks_at_def run stop_def K_def)
  have reaches: "dc_reaches cost init_pi init_duals p (px, py, pxy) t eps_base k
      = quiet bad stop (traj step s0) 0 k" for k
    by (simp add: dc_reaches_def quiet_def raises breaks)
  have RL: "R = (case L of Inl e \<Rightarrow> Inl e | Inr s \<Rightarrow> Inr (dc_result pxy s))"
    by (cases init_duals)
      (auto simp: R_def L_def solver_dc_def Let_def body_def K_def dc_K_def s0_def N_def
        dc_result_def split: sum.splits prod.splits)
  have cases: "(\<exists>k<N. bad k (traj step s0 k) \<and> quiet bad stop (traj step s0) 0 k \<and> L = Inl msg)
       \<or> (\<exists>k<N. \<not> bad k (traj step s0 k) \<and> stop k (traj step s0 k) \<and>
            quiet bad stop (traj step s0) 0 k \<and> L = Inr (traj step s0 (Suc k)))
       \<or> (quiet bad stop (traj step s0) 0 N \<and> L = Inr (traj step s0 N))"
    unfolding L_def using b st inv0 by (rule loop_break_from_0)
  have first: "k = k'"
    if "quiet bad stop (traj step s0) 0 k" "quiet bad stop (traj step s0) 0 k'"
      "bad k (traj step s0 k) \<or> stop k (traj step s0 k)"
      "bad k' (traj step s0 k') \<or> stop k' (traj step s0 k')" for k k'
    using that unfolding quiet_def by (metis le0 linorder_neqE_nat)
  have late: "\<not> (bad k (traj step s0 k) \<or> stop k (traj step s0 k))"
    if "quiet bad stop (traj step s0) 0 N" "k < N" for k
    using that unfolding quiet_def by simp
  have c1: "(\<exists>e. R = Inl e) \<longleftrightarrow> (\<exists>k<N. quiet bad stop (traj step s0) 0 k \<and> bad k (traj step s0 k))"
    using cases first late unfolding RL by (auto split: sum.splits; metis)
  have c2: "\<forall>e. R = Inl e \<longrightarrow> e = msg"
    using cases unfolding RL by (auto split: sum.splits)
  have c3: "\<forall>k<N. quiet bad stop (traj step s0) 0 k \<and> \<not> bad k (traj step s0 k) \<and>
      stop k (traj step s0 k) \<longrightarrow> R = Inr (dc_result pxy (traj step s0 (Suc k)))"
    using cases first late unfolding RL by (auto split: sum.splits; metis)
  have c4: "quiet bad stop (traj step s0) 0 N \<longrightarrow> R = Inr (dc_result pxy (traj step s0 N))"
    using cases late unfolding RL by (auto split: sum.splits)
  from c1 c2 c3 c4 show ?thesis
    unfolding R_def N_def msg_def reaches raises breaks run by blast
qed

lemma example_dc_raises:
  "dc_raises_at [[PInf]] [[Fin 1]] ([Fin 1], [Fin 1]) example_uot ([Fin 1], [Fin 1], [[Fin 1]])
     example_train (Fin 1) 0"
  by (simp add: dc_raises_at_def dc_run_def dc_nonfinite_def dc_row_mass_def dc_ipot_def dc_K_def
      checkpoint_def example_uot_def example_train_def Let_def m_map_def m_map2_def m_T_def
      width_def mv_def bcast_row_def col_bcast_def sum_dim1_def fl_sum_def tau_dc_def
      inf_of_sign_def)

theorem solver_dc_checkpoint_witness:
  "solver_dc [[PInf]] [[Fin 1]] ([Fin 1], [Fin 1]) example_uot ([Fin 1], [Fin 1], [[Fin 1]])
     example_train (Fin 1)
   = Inl (ValueError ''There is NaN in coupling. Please increase eps_base.'')"
proof -
  have ef: "eval_freq example_train \<noteq> 0" by (simp add: example_train_def)
  have ne: "[[PInf]] \<noteq> ([] :: matrix)" by simp
  have li: "length [[Fin 1]] = length [[PInf]]" by simp
  have lu: "length (fst ([Fin 1], [Fin 1 :: fl])) = length [[PInf]]" by simp
  have n: "(0::nat) < nat (niters example_train)" by (simp add: example_train_def)
  have q: "dc_reaches [[PInf]] [[Fin 1]] ([Fin 1], [Fin 1]) example_uot
      ([Fin 1], [Fin 1], [[Fin 1]]) example_train (Fin 1) 0"
    by (simp add: dc_reaches_def)
  from solver_dc_checkpoint [OF ef ne li lu, of example_uot "[Fin 1]" "[Fin 1]" "[[Fin 1]]" "Fin 1"]
    n q example_dc_raises
  show ?thesis by blast
qed

section \<open>The scaling and mm solvers\<close>

declare fl_pow.simps [simp del]

lemma rect_nth: "rect m d \<Longrightarrow> i < length m \<Longrightarrow> length (m ! i) = d"
  by (simp add: rect_def)

lemma rectI: "(\<And>i. i < length m \<Longrightarrow> length (m ! i) = d) \<Longrightarrow> rect m d"
  by (auto simp: rect_def in_set_conv_nth)

lemma column_upt: "column m j = map (\<lambda>i. m ! i ! j) [0..<length m]"
  by (rule nth_equalityI) (simp_all add: column_def)

lemma m_map_shape: "length (m_map f m) = length m" "rect m d \<Longrightarrow> rect (m_map f m) d"
  by (simp_all add: m_map_def rect_def)

lemma m_map_nth: "i < length m \<Longrightarrow> j < length (m ! i) \<Longrightarrow> m_map f m ! i ! j = f (m ! i ! j)"
  by (simp add: m_map_def)

lemma m_map2_shape:
  "length (m_map2 f m m') = min (length m) (length m')"
  "rect m d \<Longrightarrow> rect m' d \<Longrightarrow> rect (m_map2 f m m') d"
  by (auto simp: m_map2_def rect_def in_set_zip)

lemma m_map2_nth:
  "i < length m \<Longrightarrow> i < length m' \<Longrightarrow> j < length (m ! i) \<Longrightarrow> j < length (m' ! i) \<Longrightarrow>
   m_map2 f m m' ! i ! j = f (m ! i ! j) (m' ! i ! j)"
  by (simp add: m_map2_def)

lemma col_bcast_shape:
  "length (col_bcast f a m) = min (length a) (length m)"
  "rect m d \<Longrightarrow> rect (col_bcast f a m) d"
  by (auto simp: col_bcast_def rect_def in_set_zip)

lemma col_bcast_nth:
  "i < length a \<Longrightarrow> i < length m \<Longrightarrow> j < length (m ! i) \<Longrightarrow>
   col_bcast f a m ! i ! j = f (a ! i) (m ! i ! j)"
  by (simp add: col_bcast_def)

lemma row_bcast_shape:
  "length (row_bcast f b m) = length m"
  "rect m d \<Longrightarrow> length b = d \<Longrightarrow> rect (row_bcast f b m) d"
  by (auto simp: row_bcast_def rect_def)

lemma row_bcast_nth:
  "i < length m \<Longrightarrow> j < length b \<Longrightarrow> j < length (m ! i) \<Longrightarrow>
   row_bcast f b m ! i ! j = f (b ! j) (m ! i ! j)"
  by (simp add: row_bcast_def)

lemma bcast_row_shape:
  "length (bcast_row f m b) = length m"
  "rect m d \<Longrightarrow> length b = d \<Longrightarrow> rect (bcast_row f m b) d"
  by (auto simp: bcast_row_def rect_def)

lemma bcast_row_nth:
  "i < length m \<Longrightarrow> j < length b \<Longrightarrow> j < length (m ! i) \<Longrightarrow>
   bcast_row f m b ! i ! j = f (m ! i ! j) (b ! j)"
  by (simp add: bcast_row_def)

lemma outer_shape: "length (outer f a b) = length a" "rect (outer f a b) (length b)"
  by (simp_all add: outer_def rect_def)

lemma outer_nth: "i < length a \<Longrightarrow> j < length b \<Longrightarrow> outer f a b ! i ! j = f (a ! i) (b ! j)"
  by (simp add: outer_def)

lemma m_map_row: "i < length m \<Longrightarrow> length (m_map f m ! i) = length (m ! i)"
  by (simp add: m_map_def)

lemma outer_row: "i < length a \<Longrightarrow> length (outer f a b ! i) = length b"
  by (simp add: outer_def)

lemma row_upt: "length r = d \<Longrightarrow> r = map (\<lambda>j. r ! j) [0..<d]"
  by (rule nth_equalityI) simp_all

lemma scaling_vy_formula:
  assumes n: "0 < n" and lc: "length cost = n" and rc: "rect cost m"
    and lx: "length vx = n" and ly: "length vy = m" and lp: "length px = n"
  shows "length (scaling_vy cost p (map fl_log px) vx vy) = m"
    and "j < m \<Longrightarrow> scaling_vy cost p (map fl_log px) vx vy ! j = scaling_vy_entry n cost p px vx j"
proof -
  define A where "A = col_bcast fl_sub (map2 fl_add vx (map fl_log px))
      (m_map (\<lambda>c. fl_div c (eps p)) cost)"
  have lA: "length A = n" by (simp add: A_def col_bcast_shape m_map_shape lc lx lp)
  have rA: "rect A m" unfolding A_def by (intro col_bcast_shape m_map_shape rc)
  have wA: "width A = m" using rA lA n by (intro rect_width) auto
  have ent: "A ! i ! j = fl_sub (fl_add (vx ! i) (fl_log (px ! i))) (fl_div (cost ! i ! j) (eps p))"
    if "i < n" "j < m" for i j
  proof -
    from that rc lc have "length (cost ! i) = m" by (simp add: rect_nth)
    with that show ?thesis
      by (simp add: A_def col_bcast_nth m_map_nth m_map_shape lc lx lp m_map_def)
  qed
  have col: "column A j = map (\<lambda>i. fl_sub (fl_add (vx ! i) (fl_log (px ! i)))
      (fl_div (cost ! i ! j) (eps p))) [0..<n]" if "j < m" for j
    unfolding column_upt lA using ent that by simp
  show "length (scaling_vy cost p (map fl_log px) vx vy) = m"
    by (simp add: scaling_vy_def logsumexp_dim0_def A_def [symmetric] wA ly)
  show "scaling_vy cost p (map fl_log px) vx vy ! j = scaling_vy_entry n cost p px vx j" if "j < m"
    using that
    by (simp add: scaling_vy_def scaling_vy_entry_def logsumexp_dim0_def A_def [symmetric] wA ly
        col tau_def)
qed

lemma scaling_vx_formula:
  assumes lc: "length cost = n" and rc: "rect cost m"
    and lx: "length vx = n" and ly: "length vy = m" and lp: "length py = m"
  shows "length (scaling_vx cost p (map fl_log py) vx vy) = n"
    and "i < n \<Longrightarrow> scaling_vx cost p (map fl_log py) vx vy ! i = scaling_vx_entry m cost p py vy i"
proof -
  define B where "B = row_bcast fl_sub (map2 fl_add vy (map fl_log py))
      (m_map (\<lambda>c. fl_div c (eps p)) cost)"
  have lB: "length B = n" by (simp add: B_def row_bcast_shape m_map_shape lc)
  have row: "B ! i = map (\<lambda>j. fl_sub (fl_add (vy ! j) (fl_log (py ! j)))
      (fl_div (cost ! i ! j) (eps p))) [0..<m]" if "i < n" for i
  proof (rule nth_equalityI)
    from that rc lc have lci: "length (cost ! i) = m" by (simp add: rect_nth)
    with that show "length (B ! i) = length (map (\<lambda>j. fl_sub (fl_add (vy ! j) (fl_log (py ! j)))
      (fl_div (cost ! i ! j) (eps p))) [0..<m])"
      by (simp add: B_def row_bcast_def m_map_def lc ly lp)
    fix j
    assume "j < length (B ! i)"
    with that lci show "B ! i ! j = map (\<lambda>j. fl_sub (fl_add (vy ! j) (fl_log (py ! j)))
      (fl_div (cost ! i ! j) (eps p))) [0..<m] ! j"
      by (simp add: B_def row_bcast_def m_map_def lc ly lp)
  qed
  show "length (scaling_vx cost p (map fl_log py) vx vy) = n"
    by (simp add: scaling_vx_def logsumexp_dim1_def B_def [symmetric] lB lx)
  show "scaling_vx cost p (map fl_log py) vx vy ! i = scaling_vx_entry m cost p py vy i" if "i < n"
    using that
    by (simp add: scaling_vx_def scaling_vx_entry_def logsumexp_dim1_def B_def [symmetric] lB lx
        row tau_def)
qed

lemma scaling_pi_formula:
  assumes lc: "length cost = n" and rc: "rect cost m"
    and lx: "length vx = n" and ly: "length vy = m" and lpx: "length px = n" and lpy: "length py = m"
    and i: "i < n" and j: "j < m"
  shows "scaling_pi cost p (outer fl_mul px py) (vx, vy) ! i ! j
    = scaling_pi_entry cost p px py vx vy i j"
proof -
  from i rc lc have lci: "length (cost ! i) = m" by (simp add: rect_nth)
  define E where "E = m_map2 fl_sub (outer fl_add vx vy) (m_map (\<lambda>c. fl_div c (eps p)) cost)"
  have lE: "length E = n" by (simp add: E_def m_map2_shape outer_shape m_map_shape lc lx)
  have Eij: "E ! i ! j = fl_sub (fl_add (vx ! i) (vy ! j)) (fl_div (cost ! i ! j) (eps p))"
    using i j lci
    by (simp add: E_def m_map2_nth outer_nth outer_def m_map_nth m_map_shape m_map_def lc lx ly)
  have lEi: "length (E ! i) = m"
    using i j lci by (simp add: E_def m_map2_def outer_def m_map_def lc lx ly)
  have "scaling_pi cost p (outer fl_mul px py) (vx, vy)
      = m_map2 fl_mul (outer fl_mul px py) (m_map fl_exp E)"
    by (simp add: scaling_pi_def E_def)
  also have "\<dots> ! i ! j = fl_mul (outer fl_mul px py ! i ! j) (m_map fl_exp E ! i ! j)"
    using i j lE lEi by (intro m_map2_nth) (simp_all add: outer_shape outer_row m_map_shape m_map_row lpx lpy)
  also have "outer fl_mul px py ! i ! j = fl_mul (px ! i) (py ! j)"
    using i j by (simp add: outer_nth lpx lpy)
  also have "m_map fl_exp E ! i ! j = fl_exp (E ! i ! j)"
    using i j lE lEi by (simp add: m_map_nth)
  finally show ?thesis by (simp add: Eij scaling_pi_entry_def)
qed

lemma scaling_step_update:
  assumes "0 < n" and "length cost = n" and "rect cost m"
    and "length px = n" and "length py = m" and "vec_inv n m s"
  shows "scaling_update n m cost p px py s (scaling_step cost p (map fl_log px) (map fl_log py) s)"
proof -
  obtain vx vy where s: "s = (vx, vy)" by (cases s)
  with assms(6) have l: "length vx = n" "length vy = m" by (simp_all add: vec_inv_def)
  define vy' where "vy' = scaling_vy cost p (map fl_log px) vx vy"
  note y = scaling_vy_formula [OF assms(1-3) l assms(4), where p = p, folded vy'_def]
  note x = scaling_vx_formula [OF assms(2,3) l(1) y(1) assms(5), where p = p]
  show ?thesis
    using x y by (simp add: scaling_update_def scaling_step_def s Let_def vy'_def)
qed

lemma scaling_body_eq:
  assumes "0 < n" and "0 < m" and "length cost = n" and "rect cost m"
    and "length px = n" and "length py = m" and "eval_freq t \<noteq> 0" and "vec_inv n m s"
  shows "scaling_body cost p t (map fl_log px) (map fl_log py) idx s =
    (if False then Inl RuntimeError
     else Inr (scaling_converged cost p t (map fl_log px) (map fl_log py) idx s,
               scaling_step cost p (map fl_log px) (map fl_log py) s))"
proof -
  obtain vx vy where s: "s = (vx, vy)" by (cases s)
  obtain vx' vy' where st: "scaling_step cost p (map fl_log px) (map fl_log py) s = (vx', vy')"
    by (cases "scaling_step cost p (map fl_log px) (map fl_log py) s")
  from scaling_step_update [OF assms(1,3-6,8), where p = p] st
  have "length vx' = n" "length vy' = m" by (simp_all add: scaling_update_def)
  moreover from assms(8) s have "length vx = n" "length vy = m" by (simp_all add: vec_inv_def)
  ultimately have "map2 fl_sub vx' vx \<noteq> []" "map2 fl_sub vy' vy \<noteq> []"
    using assms(1,2) by auto
  with assms(7) st show ?thesis
    by (simp add: scaling_body_def s scaling_converged_def checkpoint_def)
qed

text \<open>
  C5: a call of \<open>solver_scaling\<close> on an \<open>n\<close> by \<open>m\<close> problem (with a nonzero
  \<open>eval_freq\<close>, the tuple \<open>(log px, log py, px \<otimes> py)\<close> and any \<open>eps\<close>, positive or not)
  returns the duals after \<open>k \<le> niters\<close> iterations of a run that starts at the initial
  duals: \<open>k\<close> is \<open>niters\<close>, or the loop broke after iteration \<open>k - 1\<close>, a checkpoint at
  which neither dual had changed by \<open>tol\<close> or more, and no earlier iteration was such a
  checkpoint. Every iteration of the run replaces \<open>vy\<close> and then \<open>vx\<close> by the stated
  \<open>logsumexp\<close> expressions, the second one on the new \<open>vy\<close>, with \<open>tau\<close> equal to \<open>1\<close>
  for an infinite \<open>rho\<close> and the dual equal to zero for a zero \<open>rho\<close>. The coupling
  returned is \<open>px[i] * py[j] * exp (vx[i] + vy[j] - C[i, j] / eps)\<close> at the duals returned.
\<close>

theorem solver_scaling_formula:
  assumes n: "0 < n" and m: "0 < m" and lc: "length cost = n" and rc: "rect cost m"
    and lx: "length vx0 = n" and ly: "length vy0 = m"
    and lpx: "length px = n" and lpy: "length py = m" and ef: "eval_freq t \<noteq> 0"
  shows "\<exists>k vx vy cpl. k \<le> nat (niters t)
      \<and> solver_scaling cost (vx0, vy0) p (map fl_log px, map fl_log py, outer fl_mul px py) t
          = Inr ((vx, vy), cpl)
      \<and> (vx, vy) = scaling_run cost (vx0, vy0) p px py k
      \<and> (\<forall>l. Suc l < k \<longrightarrow>
            \<not> scaling_stable t (scaling_run cost (vx0, vy0) p px py l)
                (scaling_run cost (vx0, vy0) p px py (Suc l)) l)
      \<and> (k < nat (niters t) \<longrightarrow>
            0 < k \<and> scaling_stable t (scaling_run cost (vx0, vy0) p px py (k - 1))
                      (scaling_run cost (vx0, vy0) p px py k) (k - 1))
      \<and> scaling_run cost (vx0, vy0) p px py 0 = (vx0, vy0)
      \<and> (\<forall>l. scaling_update n m cost p px py (scaling_run cost (vx0, vy0) p px py l)
                (scaling_run cost (vx0, vy0) p px py (Suc l)))
      \<and> (\<forall>i<n. \<forall>j<m. cpl ! i ! j = scaling_pi_entry cost p px py vx vy i j)"
proof -
  define step where "step = (\<lambda>idx :: nat. scaling_step cost p (map fl_log px) (map fl_log py))"
  define body where "body = scaling_body cost p t (map fl_log px) (map fl_log py)"
  define stop where "stop = scaling_converged cost p t (map fl_log px) (map fl_log py)"
  define N where "N = nat (niters t)"
  define T where "T = traj step (vx0, vy0)"
  have inv0: "vec_inv n m (vx0, vy0)" using lx ly by (simp add: vec_inv_def)
  have b: "body i s = (if (\<lambda>i s. False) i s then Inl RuntimeError else Inr (stop i s, step i s))"
    if "vec_inv n m s" for i s
    unfolding body_def stop_def step_def using n m lc rc lpx lpy ef that by (rule scaling_body_eq)
  have upd: "scaling_update n m cost p px py s (step i s)" if "vec_inv n m s" for i s
    unfolding step_def using n lc rc lpx lpy that by (rule scaling_step_update)
  have st: "vec_inv n m (step i s)" if "vec_inv n m s" for i s
    using upd [OF that, of i] by (simp add: scaling_update_def vec_inv_def)
  have invT: "vec_inv n m (T k)" for k
    unfolding T_def by (induction k) (simp_all add: inv0 st)
  have run: "scaling_run cost (vx0, vy0) p px py k = T k" for k
    by (simp add: scaling_run_def T_def step_def)
  have stopT: "stop l (T l) = scaling_stable t (T l) (T (Suc l)) l" for l
    by (simp add: stop_def T_def step_def scaling_converged_def scaling_stable_def)
  have cases: "(\<exists>k<N. (\<lambda>i s. False) k (traj step (vx0, vy0) k) \<and>
            quiet (\<lambda>i s. False) stop (traj step (vx0, vy0)) 0 k \<and>
            loop_break body [0..<N] (vx0, vy0) = Inl RuntimeError)
       \<or> (\<exists>k<N. \<not> (\<lambda>i s. False) k (traj step (vx0, vy0) k) \<and> stop k (traj step (vx0, vy0) k) \<and>
            quiet (\<lambda>i s. False) stop (traj step (vx0, vy0)) 0 k \<and>
            loop_break body [0..<N] (vx0, vy0) = Inr (traj step (vx0, vy0) (Suc k)))
       \<or> (quiet (\<lambda>i s. False) stop (traj step (vx0, vy0)) 0 N \<and>
            loop_break body [0..<N] (vx0, vy0) = Inr (traj step (vx0, vy0) N))"
    using b st inv0 by (rule loop_break_from_0)
  have "\<exists>k\<le>N. loop_break body [0..<N] (vx0, vy0) = Inr (T k)
      \<and> (\<forall>l. Suc l < k \<longrightarrow> \<not> stop l (T l))
      \<and> (k < N \<longrightarrow> 0 < k \<and> stop (k - 1) (T (k - 1)))"
    using cases
  proof (elim disjE exE conjE)
    fix k
    assume "k < N" "stop k (traj step (vx0, vy0) k)"
      "quiet (\<lambda>i s. False) stop (traj step (vx0, vy0)) 0 k"
      "loop_break body [0..<N] (vx0, vy0) = Inr (traj step (vx0, vy0) (Suc k))"
    then have "Suc k \<le> N \<and> loop_break body [0..<N] (vx0, vy0) = Inr (T (Suc k))
      \<and> (\<forall>l. Suc l < Suc k \<longrightarrow> \<not> stop l (T l))
      \<and> (Suc k < N \<longrightarrow> 0 < Suc k \<and> stop (Suc k - 1) (T (Suc k - 1)))"
      by (simp add: T_def quiet_def)
    then show ?thesis by blast
  next
    assume "quiet (\<lambda>i s. False) stop (traj step (vx0, vy0)) 0 N"
      "loop_break body [0..<N] (vx0, vy0) = Inr (traj step (vx0, vy0) N)"
    then have "N \<le> N \<and> loop_break body [0..<N] (vx0, vy0) = Inr (T N)
      \<and> (\<forall>l. Suc l < N \<longrightarrow> \<not> stop l (T l))
      \<and> (N < N \<longrightarrow> 0 < N \<and> stop (N - 1) (T (N - 1)))"
      by (simp add: T_def quiet_def)
    then show ?thesis by blast
  qed simp
  then obtain k where k: "k \<le> N" and L: "loop_break body [0..<N] (vx0, vy0) = Inr (T k)"
    and q: "\<forall>l. Suc l < k \<longrightarrow> \<not> stop l (T l)"
    and br: "k < N \<longrightarrow> 0 < k \<and> stop (k - 1) (T (k - 1))"
    by blast
  obtain vx vy where Tk: "T k = (vx, vy)" by (cases "T k")
  from invT [of k] Tk have l: "length vx = n" "length vy = m" by (simp_all add: vec_inv_def)
  have sol: "solver_scaling cost (vx0, vy0) p (map fl_log px, map fl_log py, outer fl_mul px py) t
      = Inr ((vx, vy), scaling_pi cost p (outer fl_mul px py) (vx, vy))"
    using L by (simp add: solver_scaling_def body_def N_def Tk)
  have ent: "\<forall>i<n. \<forall>j<m. scaling_pi cost p (outer fl_mul px py) (vx, vy) ! i ! j
      = scaling_pi_entry cost p px py vx vy i j"
    using scaling_pi_formula [OF lc rc l lpx lpy] by blast
  have alt: "\<forall>l. scaling_update n m cost p px py (T l) (T (Suc l))"
    using upd [OF invT] by (simp add: T_def)
  have k3: "\<forall>l. Suc l < k \<longrightarrow> \<not> scaling_stable t (T l) (T (Suc l)) l"
    using q by (simp add: stopT)
  have k4: "k < N \<longrightarrow> 0 < k \<and> scaling_stable t (T (k - 1)) (T k) (k - 1)"
  proof
    assume "k < N"
    with br have "0 < k" and "stop (k - 1) (T (k - 1))" by simp_all
    with stopT [of "k - 1"] show "0 < k \<and> scaling_stable t (T (k - 1)) (T k) (k - 1)" by simp
  qed
  have r0: "T 0 = (vx0, vy0)" by (simp add: T_def)
  have "k \<le> N
      \<and> solver_scaling cost (vx0, vy0) p (map fl_log px, map fl_log py, outer fl_mul px py) t
          = Inr ((vx, vy), scaling_pi cost p (outer fl_mul px py) (vx, vy))
      \<and> (vx, vy) = T k
      \<and> (\<forall>l. Suc l < k \<longrightarrow> \<not> scaling_stable t (T l) (T (Suc l)) l)
      \<and> (k < N \<longrightarrow> 0 < k \<and> scaling_stable t (T (k - 1)) (T k) (k - 1))
      \<and> T 0 = (vx0, vy0)
      \<and> (\<forall>l. scaling_update n m cost p px py (T l) (T (Suc l)))
      \<and> (\<forall>i<n. \<forall>j<m. scaling_pi cost p (outer fl_mul px py) (vx, vy) ! i ! j
            = scaling_pi_entry cost p px py vx vy i j)"
    using k sol Tk k3 k4 r0 alt ent by simp
  then show ?thesis
    unfolding run N_def by (intro exI [of _ k] exI [of _ vx] exI [of _ vy]
        exI [of _ "scaling_pi cost p (outer fl_mul px py) (vx, vy)"])
qed

theorem solver_scaling_formula_witness:
  "\<exists>vx vy cpl.
     solver_scaling [[Fin 0]] ([Fin 0], [Fin 0]) example_uot
       (map fl_log [Fin 1], map fl_log [Fin 1], outer fl_mul [Fin 1] [Fin 1]) example_train
       = Inr ((vx, vy), cpl)
     \<and> (vx, vy) = scaling_run [[Fin 0]] ([Fin 0], [Fin 0]) example_uot [Fin 1] [Fin 1] 1
     \<and> scaling_update 1 1 [[Fin 0]] example_uot [Fin 1] [Fin 1] ([Fin 0], [Fin 0]) (vx, vy)
     \<and> cpl ! 0 ! 0 = scaling_pi_entry [[Fin 0]] example_uot [Fin 1] [Fin 1] vx vy 0 0"
proof -
  have one: "(0::nat) < 1" by simp
  have lc: "length [[Fin 0]] = (1::nat)" and rc: "rect [[Fin 0]] 1"
    and lv: "length [Fin 0] = (1::nat)" and lp: "length [Fin 1] = (1::nat)"
    by (simp_all add: rect_def)
  have ef: "eval_freq example_train \<noteq> 0" by (simp add: example_train_def)
  have N: "nat (niters example_train) = 1" by (simp add: example_train_def)
  define R where "R = scaling_run [[Fin 0]] ([Fin 0], [Fin 0]) example_uot [Fin 1] [Fin 1]"
  from solver_scaling_formula [OF one one lc rc lv lv lp lp ef, of example_uot]
  obtain k vx vy cpl where k: "k \<le> 1"
    and sol: "solver_scaling [[Fin 0]] ([Fin 0], [Fin 0]) example_uot
       (map fl_log [Fin 1], map fl_log [Fin 1], outer fl_mul [Fin 1] [Fin 1]) example_train
       = Inr ((vx, vy), cpl)"
    and run: "(vx, vy) = R k"
    and br: "k < 1 \<longrightarrow> 0 < k"
    and r0: "R 0 = ([Fin 0], [Fin 0])"
    and upd: "\<forall>l. scaling_update 1 1 [[Fin 0]] example_uot [Fin 1] [Fin 1] (R l) (R (Suc l))"
    and ent: "\<forall>i<1. \<forall>j<1. cpl ! i ! j = scaling_pi_entry [[Fin 0]] example_uot [Fin 1] [Fin 1] vx vy i j"
    unfolding N R_def by (elim exE conjE) simp
  from k br have k1: "k = 1" by (cases k) simp_all
  from upd have "scaling_update 1 1 [[Fin 0]] example_uot [Fin 1] [Fin 1] (R 0) (R (Suc 0))" ..
  with r0 run k1 have u: "scaling_update 1 1 [[Fin 0]] example_uot [Fin 1] [Fin 1] ([Fin 0], [Fin 0]) (vx, vy)"
    by simp
  from ent have e: "cpl ! 0 ! 0 = scaling_pi_entry [[Fin 0]] example_uot [Fin 1] [Fin 1] vx vy 0 0" by simp
  from sol run k1 u e show ?thesis unfolding R_def by blast
qed

lemma sum_dim1_nth: "i < length m \<Longrightarrow> sum_dim1 m ! i = row_mass m i"
  by (simp add: sum_dim1_def row_mass_def)

lemma sum_dim0_nth: "j < width m \<Longrightarrow> sum_dim0 m ! j = col_mass m j"
  by (simp add: sum_dim0_def col_mass_def column_upt)

lemma sum_dim_length: "length (sum_dim1 m) = length m" "length (sum_dim0 m) = width m"
  by (simp_all add: sum_dim1_def sum_dim0_def)

lemma mm_K_formula:
  assumes par: "rho_x p = Fin rx" "rho_y p = Fin ry" "eps p = Fin e" "rx + ry + e \<noteq> 0"
    and lc: "length cost = n" and rc: "rect cost m" and lpx: "length px = n" and lpy: "length py = m"
  shows "length (mm_K cost p px py) = n" and "rect (mm_K cost p px py) m"
    and "i < n \<Longrightarrow> j < m \<Longrightarrow> mm_K cost p px py ! i ! j = mm_K_entry cost rx ry e px py i j"
proof -
  define S where "S = rx + ry + e"
  define A where "A = outer fl_mul (map (\<lambda>x. fl_pow x (fl_add (Fin (rx / S)) (Fin (e / S)))) px)
      (map (\<lambda>y. fl_pow y (fl_add (Fin (ry / S)) (Fin (e / S)))) py)"
  define E where "E = m_map fl_exp (m_map (\<lambda>c. fl_div (fl_neg c) (Fin S)) cost)"
  have Sne: "rx + ry + e \<noteq> 0" using par(4) by simp
  have K: "mm_K cost p px py = m_map2 fl_mul A E"
    by (simp add: mm_K_def Let_def sum_param_def par(1-3) Sne A_def E_def S_def)
  have lA: "length A = n" and rA: "rect A m"
    using outer_shape [of fl_mul "map (\<lambda>x. fl_pow x (fl_add (Fin (rx / S)) (Fin (e / S)))) px"
        "map (\<lambda>y. fl_pow y (fl_add (Fin (ry / S)) (Fin (e / S)))) py"]
    by (simp_all add: A_def lpx lpy)
  have lE: "length E = n" and rE: "rect E m"
    by (simp_all add: E_def m_map_shape lc rc)
  show "length (mm_K cost p px py) = n" by (simp add: K m_map2_shape lA lE)
  show "rect (mm_K cost p px py) m" unfolding K using rA rE by (rule m_map2_shape)
  show "mm_K cost p px py ! i ! j = mm_K_entry cost rx ry e px py i j" if i: "i < n" and j: "j < m"
  proof -
    from i rc lc have lci: "length (cost ! i) = m" by (simp add: rect_nth)
    have "m_map2 fl_mul A E ! i ! j = fl_mul (A ! i ! j) (E ! i ! j)"
      using i j lA lE rect_nth [OF rA, of i] rect_nth [OF rE, of i] by (intro m_map2_nth) simp_all
    moreover have "A ! i ! j = fl_mul (fl_pow (px ! i) (Fin (rx / S + e / S)))
        (fl_pow (py ! j) (Fin (ry / S + e / S)))"
      using i j by (simp add: A_def outer_nth lpx lpy)
    moreover have "E ! i ! j = fl_exp (fl_div (fl_neg (cost ! i ! j)) (Fin S))"
      using i j lci by (simp add: E_def m_map_nth m_map_shape m_map_row lc)
    ultimately show ?thesis
      by (simp add: K mm_K_entry_def Let_def S_def)
  qed
qed

lemma mm_step_formula:
  assumes par: "rho_x p = Fin rx" "rho_y p = Fin ry" "eps p = Fin e" "rx + ry + e \<noteq> 0"
    and n: "0 < n" and lK: "length K = n" and rK: "rect K m" and inv: "mm_inv n m s"
  shows "mm_inv n m (mm_step p K s)"
    and "i < n \<Longrightarrow> j < m \<Longrightarrow>
         snd (snd (mm_step p K s)) ! i ! j = mm_pi_entry rx ry e K (snd (snd s)) i j"
proof -
  obtain pi1 pi2 cpl where s: "s = (pi1, pi2, cpl)" by (cases s)
  with inv have lc: "length cpl = n" and rc: "rect cpl m"
    and p1: "pi1 = sum_dim1 cpl" and p2: "pi2 = sum_dim0 cpl"
    by (simp_all add: mm_inv_def)
  have wc: "width cpl = m" using rc lc n by (intro rect_width) auto
  define S where "S = rx + ry + e"
  have Sne: "S \<noteq> 0" using par(4) by (simp add: S_def)
  define P where "P = m_map (\<lambda>x. fl_pow x (Fin (rx / S + ry / S))) cpl"
  define Q where "Q = outer fl_mul (map (\<lambda>x. fl_pow x (Fin (rx / S))) pi1)
      (map (\<lambda>y. fl_pow y (Fin (ry / S))) pi2)"
  define D where "D = m_map2 fl_div P Q"
  define C where "C = m_map2 fl_mul D K"
  have step: "mm_step p K s = (sum_dim1 C, sum_dim0 C, C)"
    using Sne by (simp add: mm_step_def s Let_def sum_param_def par(1-3) C_def D_def P_def Q_def S_def)
  have lP: "length P = n" and rP: "rect P m" by (simp_all add: P_def m_map_shape lc rc)
  have lO: "length Q = n" and rO: "rect Q m"
    using outer_shape [of fl_mul "map (\<lambda>x. fl_pow x (Fin (rx / S))) pi1"
        "map (\<lambda>y. fl_pow y (Fin (ry / S))) pi2"]
    by (simp_all add: Q_def p1 p2 sum_dim_length lc wc)
  have lD: "length D = n" by (simp add: D_def m_map2_shape lP lO)
  have rD: "rect D m" unfolding D_def using rP rO by (rule m_map2_shape)
  have lC: "length C = n" by (simp add: C_def m_map2_shape lD lK)
  have rC: "rect C m" unfolding C_def using rD rK by (rule m_map2_shape)
  show "mm_inv n m (mm_step p K s)" unfolding step by (simp add: mm_inv_def lC rC)
  show "snd (snd (mm_step p K s)) ! i ! j = mm_pi_entry rx ry e K (snd (snd s)) i j"
    if i: "i < n" and j: "j < m"
  proof -
    have "C ! i ! j = fl_mul (D ! i ! j) (K ! i ! j)"
      unfolding C_def
      using i j lD lK rect_nth [OF rD, of i] rect_nth [OF rK, of i] by (intro m_map2_nth) simp_all
    moreover have "D ! i ! j = fl_div (P ! i ! j) (Q ! i ! j)"
      unfolding D_def
      using i j lP lO rect_nth [OF rP, of i] rect_nth [OF rO, of i] by (intro m_map2_nth) simp_all
    moreover have "P ! i ! j = fl_pow (cpl ! i ! j) (Fin (rx / S + ry / S))"
      using i j lc rect_nth [OF rc, of i] by (simp add: P_def m_map_nth)
    moreover have "Q ! i ! j = fl_mul (fl_pow (row_mass cpl i) (Fin (rx / S)))
        (fl_pow (col_mass cpl j) (Fin (ry / S)))"
      using i j by (simp add: Q_def outer_nth p1 p2 sum_dim_length lc wc sum_dim1_nth sum_dim0_nth)
    ultimately show ?thesis
      using step by (simp add: s mm_pi_entry_def Let_def S_def)
  qed
qed

lemma mm_body_eq:
  assumes par: "rho_x p = Fin rx" "rho_y p = Fin ry" "eps p = Fin e" "rx + ry + e \<noteq> 0"
    and n: "0 < n" and m: "0 < m" and lK: "length K = n" and rK: "rect K m"
    and ef: "eval_freq t \<noteq> 0" and inv: "mm_inv n m s"
  shows "mm_body p t K idx s =
    (if False then Inl RuntimeError
     else Inr (mm_stable t (snd (snd s)) (snd (snd (mm_step p K s))) idx, mm_step p K s))"
proof -
  obtain pi1 pi2 cpl where s: "s = (pi1, pi2, cpl)" by (cases s)
  obtain pi1' pi2' cpl' where st: "mm_step p K s = (pi1', pi2', cpl')"
    by (cases "mm_step p K s")
  from inv s have o: "length cpl = n" "rect cpl m" "pi1 = sum_dim1 cpl" "pi2 = sum_dim0 cpl"
    by (simp_all add: mm_inv_def)
  from mm_step_formula(1) [OF par n lK rK inv] st
  have o': "length cpl' = n" "rect cpl' m" "pi1' = sum_dim1 cpl'" "pi2' = sum_dim0 cpl'"
    by (simp_all add: mm_inv_def)
  have w: "width cpl = m" "width cpl' = m"
    using o o' n by (auto intro!: rect_width)
  have "map2 fl_sub pi1' pi1 \<noteq> []" "map2 fl_sub pi2' pi2 \<noteq> []"
    using o o' w n m by (auto simp: sum_dim1_def sum_dim0_def)
  moreover have "mm_stable t cpl cpl' idx
      = (checkpoint t idx \<and>
         fl_lt (py_max (max_abs_diff pi1' pi1) (max_abs_diff pi2' pi2)) (tol t))"
    by (simp add: mm_stable_def o(3,4) o'(3,4))
  ultimately show ?thesis
    using ef st [unfolded s] by (simp add: mm_body_def s checkpoint_def)
qed

text \<open>
  C6: a call of \<open>solver_mm\<close> on an \<open>n\<close> by \<open>m\<close> problem with finite \<open>rho_x\<close>, \<open>rho_y\<close>,
  \<open>eps\<close> whose sum \<open>S\<close> is not zero (so for nonzero \<open>rho_x\<close>, \<open>rho_y\<close> of one sign and
  \<open>eps \<ge> 0\<close>) and a nonzero \<open>eval_freq\<close> builds the stated kernel once, applies the
  stated update in every iteration, and returns the coupling alone, after
  \<open>k \<le> niters\<close> iterations: \<open>k\<close> is \<open>niters\<close>, or the loop broke after iteration \<open>k - 1\<close>,
  a checkpoint at which the row and column masses had changed by less than \<open>tol\<close>, and no
  earlier iteration was such a checkpoint.
\<close>

theorem solver_mm_formula:
  assumes par: "rho_x p = Fin rx" "rho_y p = Fin ry" "eps p = Fin e" "rx + ry + e \<noteq> 0"
    and n: "0 < n" and m: "0 < m" and lc: "length cost = n" and rc: "rect cost m"
    and li: "length init_pi = n" and ri: "rect init_pi m"
    and lpx: "length px = n" and lpy: "length py = m" and ef: "eval_freq t \<noteq> 0"
  shows "\<exists>k\<le>nat (niters t).
      solver_mm cost init_pi p (px, py) t = Inr (mm_run cost init_pi p (px, py) k)
      \<and> (\<forall>l. Suc l < k \<longrightarrow>
            \<not> mm_stable t (mm_run cost init_pi p (px, py) l)
                (mm_run cost init_pi p (px, py) (Suc l)) l)
      \<and> (k < nat (niters t) \<longrightarrow>
            0 < k \<and> mm_stable t (mm_run cost init_pi p (px, py) (k - 1))
                      (mm_run cost init_pi p (px, py) k) (k - 1))
      \<and> mm_run cost init_pi p (px, py) 0 = init_pi
      \<and> (\<forall>i<n. \<forall>j<m. mm_K cost p px py ! i ! j = mm_K_entry cost rx ry e px py i j)
      \<and> (\<forall>l. \<forall>i<n. \<forall>j<m.
            mm_run cost init_pi p (px, py) (Suc l) ! i ! j
              = mm_pi_entry rx ry e (mm_K cost p px py) (mm_run cost init_pi p (px, py) l) i j)"
proof -
  define K where "K = mm_K cost p px py"
  define s0 where "s0 = (sum_dim1 init_pi, sum_dim0 init_pi, init_pi)"
  define step where "step = (\<lambda>idx :: nat. mm_step p K)"
  define body where "body = mm_body p t K"
  define stop where "stop = (\<lambda>idx s. mm_stable t (snd (snd s)) (snd (snd (mm_step p K s))) idx)"
  define N where "N = nat (niters t)"
  define T where "T = traj step s0"
  note Kf = mm_K_formula [OF par lc rc lpx lpy, folded K_def]
  have inv0: "mm_inv n m s0" using li ri by (simp add: mm_inv_def s0_def)
  have b: "body i s = (if (\<lambda>i s. False) i s then Inl RuntimeError else Inr (stop i s, step i s))"
    if "mm_inv n m s" for i s
    unfolding body_def stop_def step_def using par n m Kf(1,2) ef that by (rule mm_body_eq)
  have st: "mm_inv n m (step i s)" if "mm_inv n m s" for i s
    unfolding step_def using par n Kf(1,2) that by (rule mm_step_formula(1))
  have invT: "mm_inv n m (T k)" for k
    unfolding T_def by (induction k) (simp_all add: inv0 st)
  have run: "mm_run cost init_pi p (px, py) k = snd (snd (T k))" for k
    by (simp add: mm_run_def T_def step_def s0_def K_def)
  have stopT: "stop l (T l) = mm_stable t (snd (snd (T l))) (snd (snd (T (Suc l)))) l" for l
    by (simp add: stop_def T_def step_def)
  have ent: "snd (snd (T (Suc l))) ! i ! j = mm_pi_entry rx ry e K (snd (snd (T l))) i j"
    if "i < n" "j < m" for l i j
    using mm_step_formula(2) [OF par n Kf(1,2) invT that, of l] by (simp add: T_def step_def)
  have cases: "(\<exists>k<N. (\<lambda>i s. False) k (traj step s0 k) \<and>
            quiet (\<lambda>i s. False) stop (traj step s0) 0 k \<and>
            loop_break body [0..<N] s0 = Inl RuntimeError)
       \<or> (\<exists>k<N. \<not> (\<lambda>i s. False) k (traj step s0 k) \<and> stop k (traj step s0 k) \<and>
            quiet (\<lambda>i s. False) stop (traj step s0) 0 k \<and>
            loop_break body [0..<N] s0 = Inr (traj step s0 (Suc k)))
       \<or> (quiet (\<lambda>i s. False) stop (traj step s0) 0 N \<and>
            loop_break body [0..<N] s0 = Inr (traj step s0 N))"
    using b st inv0 by (rule loop_break_from_0)
  have sol: "solver_mm cost init_pi p (px, py) t = Inr (snd (snd (T k)))"
    if "loop_break body [0..<N] s0 = Inr (T k)" for k
    using that by (cases "T k") (simp add: solver_mm_def body_def K_def s0_def N_def)
  have "\<exists>k\<le>N. solver_mm cost init_pi p (px, py) t = Inr (snd (snd (T k)))
      \<and> (\<forall>l. Suc l < k \<longrightarrow> \<not> stop l (T l))
      \<and> (k < N \<longrightarrow> 0 < k \<and> stop (k - 1) (T (k - 1)))"
    using cases
  proof (elim disjE exE conjE)
    fix k
    assume "k < N" "stop k (traj step s0 k)" "quiet (\<lambda>i s. False) stop (traj step s0) 0 k"
      "loop_break body [0..<N] s0 = Inr (traj step s0 (Suc k))"
    then have "Suc k \<le> N \<and> solver_mm cost init_pi p (px, py) t = Inr (snd (snd (T (Suc k))))
      \<and> (\<forall>l. Suc l < Suc k \<longrightarrow> \<not> stop l (T l))
      \<and> (Suc k < N \<longrightarrow> 0 < Suc k \<and> stop (Suc k - 1) (T (Suc k - 1)))"
      using sol [of "Suc k"] by (simp add: T_def quiet_def)
    then show ?thesis by blast
  next
    assume "quiet (\<lambda>i s. False) stop (traj step s0) 0 N"
      "loop_break body [0..<N] s0 = Inr (traj step s0 N)"
    then have "N \<le> N \<and> solver_mm cost init_pi p (px, py) t = Inr (snd (snd (T N)))
      \<and> (\<forall>l. Suc l < N \<longrightarrow> \<not> stop l (T l))
      \<and> (N < N \<longrightarrow> 0 < N \<and> stop (N - 1) (T (N - 1)))"
      using sol [of N] by (simp add: T_def quiet_def)
    then show ?thesis by blast
  qed simp
  then obtain k where k: "k \<le> N"
    "solver_mm cost init_pi p (px, py) t = Inr (snd (snd (T k)))"
    "\<forall>l. Suc l < k \<longrightarrow> \<not> stop l (T l)"
    "k < N \<longrightarrow> 0 < k \<and> stop (k - 1) (T (k - 1))" by blast
  have k3: "\<forall>l. Suc l < k \<longrightarrow>
      \<not> mm_stable t (mm_run cost init_pi p (px, py) l) (mm_run cost init_pi p (px, py) (Suc l)) l"
    using k(3) by (simp add: stopT run)
  have k4: "k < nat (niters t) \<longrightarrow>
      0 < k \<and> mm_stable t (mm_run cost init_pi p (px, py) (k - 1))
                (mm_run cost init_pi p (px, py) k) (k - 1)"
  proof
    assume "k < nat (niters t)"
    with k(4) have "0 < k" and "stop (k - 1) (T (k - 1))" by (simp_all add: N_def)
    with stopT [of "k - 1"] show "0 < k \<and> mm_stable t (mm_run cost init_pi p (px, py) (k - 1))
                (mm_run cost init_pi p (px, py) k) (k - 1)" by (simp add: run)
  qed
  have r0: "mm_run cost init_pi p (px, py) 0 = init_pi" by (simp add: run T_def s0_def)
  have kf: "\<forall>i<n. \<forall>j<m. mm_K cost p px py ! i ! j = mm_K_entry cost rx ry e px py i j"
    using Kf(3) by (simp add: K_def)
  have it: "\<forall>l. \<forall>i<n. \<forall>j<m. mm_run cost init_pi p (px, py) (Suc l) ! i ! j
      = mm_pi_entry rx ry e (mm_K cost p px py) (mm_run cost init_pi p (px, py) l) i j"
    using ent by (simp add: run K_def)
  from k(1,2) k3 k4 r0 kf it show ?thesis
    unfolding N_def run [symmetric] by blast
qed

theorem solver_mm_formula_witness:
  "\<exists>k\<le>1.
     solver_mm [[Fin 0]] [[Fin 1]] example_uot ([Fin 1], [Fin 1]) example_train
       = Inr (mm_run [[Fin 0]] [[Fin 1]] example_uot ([Fin 1], [Fin 1]) k)
     \<and> mm_K [[Fin 0]] example_uot [Fin 1] [Fin 1] ! 0 ! 0
       = mm_K_entry [[Fin 0]] 1 1 1 [Fin 1] [Fin 1] 0 0"
proof -
  have par: "rho_x example_uot = Fin 1" "rho_y example_uot = Fin 1" "eps example_uot = Fin 1"
    "(1::real) + 1 + 1 \<noteq> 0"
    by (simp_all add: example_uot_def)
  have one: "(0::nat) < 1" by simp
  have lc: "length [[Fin 0]] = (1::nat)" and rc: "rect [[Fin 0]] 1"
    and li: "length [[Fin 1]] = (1::nat)" and ri: "rect [[Fin 1]] 1"
    and lp: "length [Fin 1] = (1::nat)"
    by (simp_all add: rect_def)
  have ef: "eval_freq example_train \<noteq> 0" by (simp add: example_train_def)
  have N: "nat (niters example_train) = 1" by (simp add: example_train_def)
  from solver_mm_formula [OF par one one lc rc li ri lp lp ef]
  obtain k where k: "k \<le> nat (niters example_train)"
    and sol: "solver_mm [[Fin 0]] [[Fin 1]] example_uot ([Fin 1], [Fin 1]) example_train
       = Inr (mm_run [[Fin 0]] [[Fin 1]] example_uot ([Fin 1], [Fin 1]) k)"
    and ker: "\<forall>i<1. \<forall>j<1. mm_K [[Fin 0]] example_uot [Fin 1] [Fin 1] ! i ! j
       = mm_K_entry [[Fin 0]] 1 1 1 [Fin 1] [Fin 1] i j"
    by (elim exE conjE) simp
  from ker have "mm_K [[Fin 0]] example_uot [Fin 1] [Fin 1] ! 0 ! 0
       = mm_K_entry [[Fin 0]] 1 1 1 [Fin 1] [Fin 1] 0 0" by simp
  with k sol show ?thesis unfolding N by (intro exI [of _ k]) simp
qed

end
